theory Spec2Isabelle
  imports Complex_Main "HOL-Library.Word"
begin

section \<open>Data model\<close>

text \<open>
  Bytes are 8-bit words. Go's \<^verbatim>\<open>int64\<close> counters that are added to (\<^verbatim>\<open>progress.curr\<close>)
  are 64-bit words read with \<open>sint\<close>; indices, status codes and sizes that are only
  compared or used as keys are \<open>int\<close>.
\<close>

type_synonym byte = "8 word"

text \<open>
  The error values that travel through \<^verbatim>\<open>summon.go\<close>. \<open>EOF\<close> is \<^verbatim>\<open>io.EOF\<close>;
  \<open>ErrGracefulShutdown\<close> is the package-level sentinel the read loop returns (declared
  outside the two source files); \<open>ChunkHandleNil\<close>, \<open>CopyFailed\<close>, \<open>RenameFailed\<close> and
  \<open>UnexpectedStatus\<close> are the four \<^verbatim>\<open>fmt.Errorf\<close> values of \<^verbatim>\<open>combineChunks\<close> and
  \<^verbatim>\<open>downloadFileForRange\<close>; \<open>OSError\<close> stands for any error handed in by the operating
  system or the network.
\<close>

datatype error =
    EOF
  | ErrGracefulShutdown
  | ChunkHandleNil
  | CopyFailed error
  | RenameFailed error
  | UnexpectedStatus int
  | OSError string

text \<open>A run-time panic ends the whole process; it is not an \<^verbatim>\<open>error\<close> value.\<close>

datatype panic = NilPointerDereference

subsection \<open>Go maps whose values are pointers\<close>

text \<open>
  \<^verbatim>\<open>map[int64]*T\<close> is an association list; the first binding of a key is the live one.
  A value \<open>None\<close> is a nil pointer. \<open>len\<close> counts the keys, \<open>index m k\<close> is \<^verbatim>\<open>m[k]\<close>
  (nil for an absent key, as Go returns the zero value), and \<open>assign\<close> writes through
  the binding of \<open>k\<close>. Each pointer is taken to point to an object of its own, as the
  part files and the counters of distinct chunks are.
\<close>

type_synonym ('k, 'v) gomap = "('k \<times> 'v option) list"

definition len :: "('k, 'v) gomap \<Rightarrow> nat" where
  "len m = length (remdups (map fst m))"

definition index :: "('k, 'v) gomap \<Rightarrow> 'k \<Rightarrow> 'v option" where
  "index m k = (case map_of m k of None \<Rightarrow> None | Some v \<Rightarrow> v)"

fun assign :: "('k, 'v) gomap \<Rightarrow> 'k \<Rightarrow> 'v option \<Rightarrow> ('k, 'v) gomap" where
  "assign [] k v = [(k, v)]"
| "assign ((k', v') # m) k v = (if k' = k then (k, v) # m else (k', v') # assign m k v)"

subsection \<open>Open files\<close>

text \<open>
  An \<^verbatim>\<open>*os.File\<close>: its path, its contents, the read/write cursor (one cursor for both,
  as the comment in \<^verbatim>\<open>combineChunks\<close> says), and \<open>ffault\<close>, the error every system call
  on the handle reports when the device or the descriptor is broken.
\<close>

record osFile =
  fname :: string
  fbytes :: "byte list"
  fcursor :: nat
  ffault :: "error option"

text \<open>\<^verbatim>\<open>handle.Seek(0, 0)\<close>; the source drops both results.\<close>

definition Seek0 :: "osFile \<Rightarrow> osFile" where
  "Seek0 f = (case ffault f of Some e \<Rightarrow> f | None \<Rightarrow> f\<lparr>fcursor := 0\<rparr>)"

text \<open>
  \<^verbatim>\<open>f.Write(b)\<close> writes at the cursor (a gap before the cursor reads as zero bytes) and
  moves the cursor past what it wrote. It returns the count and the error.
\<close>

definition Write :: "osFile \<Rightarrow> byte list \<Rightarrow> (nat \<times> error option) \<times> osFile" where
  "Write f b =
     (case ffault f of
        Some e \<Rightarrow> ((0, Some e), f)
      | None \<Rightarrow>
          ((length b, None),
           f\<lparr>fbytes := take (fcursor f) (fbytes f @ replicate (fcursor f - length (fbytes f)) 0)
                        @ b @ drop (fcursor f + length b) (fbytes f),
              fcursor := fcursor f + length b\<rparr>))"

text \<open>
  \<^verbatim>\<open>io.Copy(dst, src)\<close> reads \<open>src\<close> from its cursor to the end of the file and writes
  what it read to \<open>dst\<close>. A read error, or a write error once there is something to
  write, is returned; end of file is not an error.
\<close>

definition io_Copy :: "osFile \<Rightarrow> osFile \<Rightarrow> (nat \<times> error option) \<times> osFile \<times> osFile" where
  "io_Copy dst src =
     (case ffault src of
        Some e \<Rightarrow> ((0, Some e), dst, src)
      | None \<Rightarrow>
          (let b = drop (fcursor src) (fbytes src) in
           if b = [] then ((0, None), dst, src)
           else (case Write dst b of
                   ((n, Some e), dst') \<Rightarrow> ((n, Some e), dst', src)
                 | ((n, None), dst') \<Rightarrow>
                     ((n, None), dst', src\<lparr>fcursor := length (fbytes src)\<rparr>))))"

subsection \<open>The job\<close>

record progress =
  curr :: "64 word"
  total :: "64 word"

record progressBar =
  p :: "(int, progress) gomap"

record fileDetails =
  chunks :: "(int, osFile) gomap"
  fileName :: string
  fileDir :: string
  tempOutFile :: osFile

subsection \<open>Floating point\<close>

text \<open>
  \<^verbatim>\<open>float64\<close> with its three kinds of special value. Finite values are rationals and
  finite arithmetic is exact here: the binary rounding of a quotient or product is not
  modelled, and neither is the sign of zero. What is modelled is what IEEE 754 fixes
  whatever the rounding: a division by zero gives an infinity, or NaN for \<open>0 / 0\<close>, and
  NaN and the infinities propagate.
\<close>

datatype float64 = Finite rat | PosInf | NegInf | NaN

definition float64_of_int64 :: "64 word \<Rightarrow> float64" where
  "float64_of_int64 w = Finite (of_int (sint w))"

fun fdiv :: "float64 \<Rightarrow> float64 \<Rightarrow> float64" where
  "fdiv NaN y = NaN"
| "fdiv x NaN = NaN"
| "fdiv (Finite a) (Finite b) =
     (if b = 0 then (if a = 0 then NaN else if 0 < a then PosInf else NegInf)
      else Finite (a / b))"
| "fdiv (Finite a) PosInf = Finite 0"
| "fdiv (Finite a) NegInf = Finite 0"
| "fdiv PosInf (Finite b) = (if 0 \<le> b then PosInf else NegInf)"
| "fdiv NegInf (Finite b) = (if 0 \<le> b then NegInf else PosInf)"
| "fdiv PosInf PosInf = NaN"
| "fdiv PosInf NegInf = NaN"
| "fdiv NegInf PosInf = NaN"
| "fdiv NegInf NegInf = NaN"

fun fmul :: "float64 \<Rightarrow> float64 \<Rightarrow> float64" where
  "fmul NaN y = NaN"
| "fmul x NaN = NaN"
| "fmul (Finite a) (Finite b) = Finite (a * b)"
| "fmul (Finite a) PosInf = (if a = 0 then NaN else if 0 < a then PosInf else NegInf)"
| "fmul (Finite a) NegInf = (if a = 0 then NaN else if 0 < a then NegInf else PosInf)"
| "fmul PosInf (Finite b) = (if b = 0 then NaN else if 0 < b then PosInf else NegInf)"
| "fmul NegInf (Finite b) = (if b = 0 then NaN else if 0 < b then NegInf else PosInf)"
| "fmul PosInf PosInf = PosInf"
| "fmul PosInf NegInf = NegInf"
| "fmul NegInf PosInf = NegInf"
| "fmul NegInf NegInf = PosInf"

text \<open>\<^verbatim>\<open>math.Round\<close>: to the nearest integer, halves away from zero; special values stay.\<close>

fun math_Round :: "float64 \<Rightarrow> float64" where
  "math_Round (Finite a) =
     Finite (of_int (if 0 \<le> a then \<lfloor>a + 1 / 2\<rfloor> else \<lceil>a - 1 / 2\<rceil>))"
| "math_Round x = x"

text \<open>
  The conversion \<^verbatim>\<open>int(x)\<close> truncates towards zero. For NaN, an infinity or a value
  outside the range of \<^verbatim>\<open>int\<close> Go leaves the result to the implementation: it is the
  parameter \<open>indefinite\<close>. The conversion never panics.
\<close>

fun int_of_float64 :: "int \<Rightarrow> float64 \<Rightarrow> int" where
  "int_of_float64 indefinite (Finite a) =
     (let n = (if 0 \<le> a then \<lfloor>a\<rfloor> else \<lceil>a\<rceil>)
      in if - (2 ^ 63) \<le> n \<and> n < 2 ^ 63 then n else indefinite)"
| "int_of_float64 indefinite x = indefinite"

text \<open>
  What the job does to the outside is recorded in order: \<open>trace\<close> lists the calls made
  on files, the moments \<^verbatim>\<open>wg.Wait()\<close> and \<^verbatim>\<open>pWg.Wait()\<close> return in \<^verbatim>\<open>process\<close>, the
  hand-over of the stop signal to the renderer, and what the renderer printed. A printed
  line is kept as the values \<^verbatim>\<open>printProgress\<close> formats: the connection number, the cells
  between the brackets and the percentage.
\<close>

record line =
  connection :: int
  cells :: string
  percent :: float64

datatype event =
    SeekChunk nat
  | CopyChunk nat
  | Rename string string
  | FetchersJoined
  | StopSignal
  | RendererJoined
  | Printed line
  | CursorUp

text \<open>
  The fields of \<^verbatim>\<open>summon\<close> the claims are about, and with them the directory (\<open>disk\<close>:
  the contents of the closed files, by path) and the trace.
\<close>

record summon =
  concurrency :: int
  err :: "error option"
  fileDetails :: fileDetails
  progressBar :: progressBar
  separator :: string
  disk :: "string \<rightharpoonup> byte list"
  trace :: "event list"

section \<open>Combining the chunks\<close>

text \<open>
  The loop of \<^verbatim>\<open>combineChunks\<close> over the indices it still has to visit. The handle is
  looked up, a nil handle ends the loop with an error, the handle is rewound and copied
  into the temporary output file, and a copy error ends the loop.
\<close>

fun combineLoop :: "nat list \<Rightarrow> summon \<Rightarrow> error option \<times> summon" where
  "combineLoop [] s = (None, s)"
| "combineLoop (i # is) s =
     (case index (chunks (fileDetails s)) (int i) of
        None \<Rightarrow> (Some ChunkHandleNil, s)
      | Some handle \<Rightarrow>
          (case io_Copy (tempOutFile (fileDetails s)) (Seek0 handle) of
             ((written, e), out, handle') \<Rightarrow>
               (let s' = s\<lparr>fileDetails := (fileDetails s)
                              \<lparr>chunks := assign (chunks (fileDetails s)) (int i) (Some handle'),
                               tempOutFile := out\<rparr>,
                            trace := trace s @ [SeekChunk i, CopyChunk i]\<rparr>
                in (case e of
                      Some e' \<Rightarrow> (Some (CopyFailed e'), s')
                    | None \<Rightarrow> combineLoop is s'))))"

text \<open>
  \<^verbatim>\<open>combineChunks\<close>: the loop over \<open>0 .. len(chunks) - 1\<close>, then \<^verbatim>\<open>os.Rename\<close> of the
  temporary file to \<open>fileDir + separator + fileName\<close>. \<open>renameFault\<close> is the error the
  operating system answers the rename with, if it does.
  The byte count \<open>w\<close> of the source is only logged and is left out, as are the log
  lines.
\<close>

definition finalFileName :: "summon \<Rightarrow> string" where
  "finalFileName s = fileDir (fileDetails s) @ separator s @ fileName (fileDetails s)"

definition combineChunks :: "error option \<Rightarrow> summon \<Rightarrow> error option \<times> summon" where
  "combineChunks renameFault s =
     (case combineLoop [0..<len (chunks (fileDetails s))] s of
        (Some e, s') \<Rightarrow> (Some e, s')
      | (None, s') \<Rightarrow>
          (let tempFileName = fname (tempOutFile (fileDetails s'));
               s'' = s'\<lparr>trace := trace s' @ [Rename tempFileName (finalFileName s')]\<rparr>
           in (case renameFault of
                 Some e \<Rightarrow> (Some (RenameFailed e), s'')
               | None \<Rightarrow>
                   (None, s''\<lparr>disk := (disk s')(tempFileName := None,
                                   finalFileName s' \<mapsto> fbytes (tempOutFile (fileDetails s')))\<rparr>))))"

text \<open>What the theorems about \<^verbatim>\<open>combineChunks\<close> speak of.\<close>

definition chunkBytes :: "summon \<Rightarrow> nat \<Rightarrow> byte list" where
  "chunkBytes s i =
     (case index (chunks (fileDetails s)) (int i) of None \<Rightarrow> [] | Some h \<Rightarrow> fbytes h)"

definition copyEvents :: "nat list \<Rightarrow> event list" where
  "copyEvents is = concat (map (\<lambda>i. [SeekChunk i, CopyChunk i]) is)"

text \<open>
  A job is healthy for combining when every index below the number of chunks has a
  handle whose file works, and the temporary output file works.
\<close>

definition healthy :: "summon \<Rightarrow> bool" where
  "healthy s =
     (list_all (\<lambda>i. case index (chunks (fileDetails s)) (int i) of
                         None \<Rightarrow> False | Some h \<Rightarrow> ffault h = None)
        [0..<len (chunks (fileDetails s))]
      \<and> ffault (tempOutFile (fileDetails s)) = None)"

section \<open>Fetching a chunk\<close>

text \<open>
  The response body is the sequence of results of its \<^verbatim>\<open>Read\<close> calls: the \<open>k\<close>-th call
  hands over some bytes and possibly an error. The buffer holds 500 bytes, so at most
  500 bytes of a result are taken.

  \<^verbatim>\<open>readBody\<close>: one read. When bytes came they are written to the chunk file (the
  results of \<^verbatim>\<open>f.Write\<close> are dropped) and added to the chunk's counter, which panics
  when the map has no counter for the index. Then the read's error is returned.
\<close>

type_synonym body = "nat \<Rightarrow> byte list \<times> error option"

definition readBody ::
  "byte list \<times> error option \<Rightarrow> int \<Rightarrow> osFile \<times> summon
     \<Rightarrow> panic + (error option \<times> osFile \<times> summon)" where
  "readBody rd idx fs =
     (case (rd, fs) of ((b, e), (f, s)) \<Rightarrow>
        (let buf = take 500 b; r = length buf in
         if 0 < r then
           (let f' = snd (Write f buf) in
            case index (p (progressBar s)) idx of
              None \<Rightarrow> Inl NilPointerDereference
            | Some pr \<Rightarrow>
                Inr (e, f', s\<lparr>progressBar := (progressBar s)
                     \<lparr>p := assign (p (progressBar s)) idx
                             (Some (pr\<lparr>curr := curr pr + word_of_nat r\<rparr>))\<rparr>\<rparr>))
         else Inr (e, f, s)))"

text \<open>
  The loop of \<^verbatim>\<open>getDataAndWriteToFile\<close>, at its \<open>k\<close>-th iteration. \<open>stop k\<close> says whether
  a value is ready on \<^verbatim>\<open>sum.stop\<close> when the \<^verbatim>\<open>select\<close> of that iteration runs; the
  \<^verbatim>\<open>default\<close> case is taken only when none is. The loop has no bound of its own: with a
  body that never ends and never fails it does not return, which is the value \<open>None\<close>.
\<close>

partial_function (option) getDataLoop ::
  "body \<Rightarrow> (nat \<Rightarrow> bool) \<Rightarrow> int \<Rightarrow> nat \<Rightarrow> osFile \<times> summon
     \<Rightarrow> (panic + (error option \<times> osFile \<times> summon)) option" where
  "getDataLoop bd stop idx k fs =
     (if stop k then Some (Inr (Some ErrGracefulShutdown, fs))
      else (case readBody (bd k) idx fs of
              Inl pn \<Rightarrow> Some (Inl pn)
            | Inr r \<Rightarrow>
                (case fst r of
                   Some e \<Rightarrow>
                     (if e = EOF then Some (Inr (None, snd r)) else Some (Inr (Some e, snd r)))
                 | None \<Rightarrow> getDataLoop bd stop idx (Suc k) (snd r))))"

declare getDataLoop.simps [code]

definition getDataAndWriteToFile ::
  "body \<Rightarrow> (nat \<Rightarrow> bool) \<Rightarrow> osFile \<Rightarrow> int \<Rightarrow> summon
     \<Rightarrow> (panic + (error option \<times> osFile \<times> summon)) option" where
  "getDataAndWriteToFile bd stop f idx s = getDataLoop bd stop idx 0 (f, s)"

text \<open>
  What the network answers a chunk's request with: \<^verbatim>\<open>http.NewRequest\<close> fails,
  \<^verbatim>\<open>client.Do\<close> fails, or a response with a status code and a body arrives.
\<close>

datatype response =
    NewRequestFails error
  | DoFails error
  | Response int body

text \<open>
  \<^verbatim>\<open>downloadFileForRange\<close>: every failure is stored in \<^verbatim>\<open>sum.err\<close> (under the lock) and
  the function returns nothing.
\<close>

definition downloadFileForRange ::
  "response \<Rightarrow> (nat \<Rightarrow> bool) \<Rightarrow> int \<Rightarrow> osFile \<Rightarrow> summon
     \<Rightarrow> (panic + (osFile \<times> summon)) option" where
  "downloadFileForRange resp stop idx handle s =
     (case resp of
        NewRequestFails e \<Rightarrow> Some (Inr (handle, s\<lparr>err := Some e\<rparr>))
      | DoFails e \<Rightarrow> Some (Inr (handle, s\<lparr>err := Some e\<rparr>))
      | Response statusCode bd \<Rightarrow>
          if statusCode \<noteq> 200 \<and> statusCode \<noteq> 206
          then Some (Inr (handle, s\<lparr>err := Some (UnexpectedStatus statusCode)\<rparr>))
          else (case getDataAndWriteToFile bd stop handle idx s of
                  None \<Rightarrow> None
                | Some (Inl pn) \<Rightarrow> Some (Inl pn)
                | Some (Inr (Some e, handle', s')) \<Rightarrow> Some (Inr (handle', s'\<lparr>err := Some e\<rparr>))
                | Some (Inr (None, handle', s')) \<Rightarrow> Some (Inr (handle', s'))))"

text \<open>The bytes the body hands over in its reads \<open>k, ..., k + n - 1\<close>.\<close>

definition delivered :: "body \<Rightarrow> nat \<Rightarrow> nat \<Rightarrow> nat" where
  "delivered bd k n = (\<Sum>j = k..<k + n. length (take 500 (fst (bd j))))"

section \<open>Concurrency setting\<close>

text \<open>
  \<^verbatim>\<open>setConcurrency\<close>. The constants \<^verbatim>\<open>DEFAULT_CONN\<close> and \<^verbatim>\<open>MAX_CONN\<close> are declared outside
  the two source files; they are parameters. The function returns nothing.
\<close>

definition setConcurrency :: "int \<Rightarrow> int \<Rightarrow> int \<Rightarrow> summon \<Rightarrow> summon" where
  "setConcurrency DEFAULT_CONN MAX_CONN c s =
     (if c \<le> 0 then s\<lparr>concurrency := DEFAULT_CONN\<rparr>
      else if c \<ge> MAX_CONN then s\<lparr>concurrency := MAX_CONN\<rparr>
      else s\<lparr>concurrency := c\<rparr>)"

section \<open>The progress renderer\<close>

text \<open>
  \<^verbatim>\<open>printProgress\<close>. \<open>progressSize\<close> is the package variable of that name, set by
  \<^verbatim>\<open>process\<close> from \<^verbatim>\<open>getProgressSize()\<close>, which the two source files do not hold.
\<close>

definition printProgress :: "int \<Rightarrow> int \<Rightarrow> int \<Rightarrow> progress \<Rightarrow> line" where
  "printProgress indefinite progressSize idx pr =
     (let percent = math_Round (fmul (fdiv (float64_of_int64 (curr pr))
                                           (float64_of_int64 (total pr))) (Finite 100));
          n = int_of_float64 indefinite
                (fmul (fdiv percent (Finite 100)) (Finite (of_int progressSize)))
      in \<lparr>connection = idx + 1,
          cells = map (\<lambda>i. if int i \<le> n then CHR ''>'' else CHR '' '') [0..<nat progressSize],
          percent = percent\<rparr>)"

text \<open>
  The loop both cases of the renderer's \<^verbatim>\<open>select\<close> run: for each index the counter is
  copied out of the map through its pointer (a nil pointer panics) and its line is
  printed.
\<close>

fun printLines ::
  "int \<Rightarrow> int \<Rightarrow> (int, progress) gomap \<Rightarrow> nat list \<Rightarrow> event list
     \<Rightarrow> panic option \<times> event list" where
  "printLines indefinite progressSize m [] out = (None, out)"
| "printLines indefinite progressSize m (i # is) out =
     (case index m (int i) of
        None \<Rightarrow> (Some NilPointerDereference, out)
      | Some pr \<Rightarrow>
          printLines indefinite progressSize m is
            (out @ [Printed (printProgress indefinite progressSize (int i) pr)]))"

text \<open>
  \<^verbatim>\<open>startProgressBar\<close> is driven by the cases its \<^verbatim>\<open>select\<close> takes, one after the other.
  Each comes with the progress map as the reads of that frame find it (the keys are
  fixed once the fetchers are launched; the counters move). A tick prints all lines
  and moves the cursor back up; the stop signal prints all lines and returns. With no
  further case to take the goroutine is still waiting in \<^verbatim>\<open>select\<close>.
\<close>

datatype select = TickerC "(int, progress) gomap" | StopCh "(int, progress) gomap"

datatype goroutine = Waiting | Returned | Panicked panic

fun startProgressBar ::
  "int \<Rightarrow> int \<Rightarrow> select list \<Rightarrow> event list \<Rightarrow> goroutine \<times> event list" where
  "startProgressBar indefinite progressSize [] out = (Waiting, out)"
| "startProgressBar indefinite progressSize (TickerC m # sel) out =
     (case printLines indefinite progressSize m [0..<len m] out of
        (Some pn, out') \<Rightarrow> (Panicked pn, out')
      | (None, out') \<Rightarrow>
          startProgressBar indefinite progressSize sel (out' @ replicate (len m) CursorUp))"
| "startProgressBar indefinite progressSize (StopCh m # sel) out =
     (case printLines indefinite progressSize m [0..<len m] (out @ [StopSignal]) of
        (Some pn, out') \<Rightarrow> (Panicked pn, out')
      | (None, out') \<Rightarrow> (Returned, out'))"

text \<open>The frame of a progress map whose counters are all there.\<close>

definition frame :: "int \<Rightarrow> int \<Rightarrow> (int, progress) gomap \<Rightarrow> event list" where
  "frame indefinite progressSize m =
     map (\<lambda>i. Printed (printProgress indefinite progressSize (int i)
                      (case index m (int i) of Some pr \<Rightarrow> pr
                       | None \<Rightarrow> \<lparr>curr = 0, total = 0\<rparr>)))
       [0..<len m]"

definition dense :: "(int, 'v) gomap \<Rightarrow> bool" where
  "dense m = list_all (\<lambda>i. index m (int i) \<noteq> None) [0..<len m]"

section \<open>The supervisor\<close>

text \<open>
  \<^verbatim>\<open>process\<close>. The downloader (\<^verbatim>\<open>download\<close> or \<^verbatim>\<open>resumeDownload\<close>, outside the two
  source files) is a parameter: it returns its error and the job as it stands, which
  for a nil error is the job at the moment \<^verbatim>\<open>wg.Wait()\<close> returns, all fetchers done.
  \<open>ticks\<close> are the progress maps of the frames the renderer drew before that moment,
  \<open>late\<close> is the number of ticks it still takes between that moment and the stop
  signal. The send on the unbuffered \<^verbatim>\<open>stop\<close> channel completes when the renderer
  receives it, and \<^verbatim>\<open>pWg.Wait()\<close> returns when the renderer has returned. A panic of
  the renderer ends the process. The deferred \<^verbatim>\<open>Close\<close> calls are left out.
\<close>

definition process ::
  "int \<Rightarrow> int \<Rightarrow> (summon \<Rightarrow> error option \<times> summon) \<Rightarrow> (int, progress) gomap list \<Rightarrow> nat
     \<Rightarrow> error option \<Rightarrow> summon \<Rightarrow> panic + (error option \<times> summon)" where
  "process indefinite progressSize downloader ticks late renameFault s0 =
     (case downloader s0 of
        (Some e, s) \<Rightarrow> Inr (Some e, s)
      | (None, s) \<Rightarrow>
          (case startProgressBar indefinite progressSize (map TickerC ticks) (trace s) of
             (Panicked pn, t1) \<Rightarrow> Inl pn
           | (g1, t1) \<Rightarrow>
               (case startProgressBar indefinite progressSize
                       (replicate late (TickerC (p (progressBar s))) @ [StopCh (p (progressBar s))])
                       (t1 @ [FetchersJoined]) of
                  (Panicked pn, t2) \<Rightarrow> Inl pn
                | (g2, t2) \<Rightarrow>
                    (let s' = s\<lparr>trace := t2 @ [RendererJoined]\<rparr> in
                     case err s' of
                       Some e \<Rightarrow> Inr (Some e, s')
                     | None \<Rightarrow> Inr (combineChunks renameFault s')))))"

text \<open>
  Modelled from the spec: the caller of \<^verbatim>\<open>process\<close> that reports a failed job is outside
  the two source files. The spec (section 7) has \<^verbatim>\<open>GracefulShutdownError\<close> as "externally
  requested cancellation -- not a failure of the job, suppresses the job failed report",
  and every other error as fatal. \<open>jobFailedReport r\<close> says whether the job is reported as
  failed for the result \<open>r\<close> of \<^verbatim>\<open>process\<close>.
\<close>

definition jobFailedReport :: "error option \<Rightarrow> bool" where
  "jobFailedReport r =
     (case r of None \<Rightarrow> False | Some e \<Rightarrow> (if e = ErrGracefulShutdown then False else True))"

section \<open>Example jobs\<close>

text \<open>
  Two part files as their fetchers left them (the cursor at the end of what was
  written), and a job over them with an empty temporary output file. \<open>jobGap\<close> is the
  same job with its second part file under key 2, so that index 1 has no handle.
\<close>

definition f0 :: osFile where
  "f0 = \<lparr>fname = ''/d/.out.sump0'', fbytes = [1, 2], fcursor = 2, ffault = None\<rparr>"

definition f1 :: osFile where
  "f1 = \<lparr>fname = ''/d/.out.sump1'', fbytes = [3], fcursor = 1, ffault = None\<rparr>"

definition job0 :: summon where
  "job0 = \<lparr>concurrency = 2, err = None,
            fileDetails = \<lparr>chunks = [(1, Some f1), (0, Some f0)], fileName = ''out'',
               fileDir = ''/d'',
               tempOutFile = \<lparr>fname = ''/d/tmp'', fbytes = [], fcursor = 0, ffault = None\<rparr>\<rparr>,
            progressBar = \<lparr>p = [(0, Some \<lparr>curr = 2, total = 2\<rparr>),
                                 (1, Some \<lparr>curr = 1, total = 1\<rparr>)]\<rparr>,
            separator = ''/'', disk = Map.empty, trace = []\<rparr>"

definition jobGap :: summon where
  "jobGap = job0\<lparr>fileDetails := (fileDetails job0)\<lparr>chunks := [(0, Some f0), (2, Some f1)]\<rparr>\<rparr>"

section \<open>Notions the theorems use\<close>

text \<open>The calls on files among the events, and the counter a map holds for an index.\<close>

fun fileCall :: "event \<Rightarrow> bool" where
  "fileCall (SeekChunk i) = True"
| "fileCall (CopyChunk i) = True"
| "fileCall (Rename a b) = True"
| "fileCall ev = False"

definition entry :: "(int, progress) gomap \<Rightarrow> nat \<Rightarrow> progress" where
  "entry m i = (case index m (int i) of Some pr \<Rightarrow> pr | None \<Rightarrow> \<lparr>curr = 0, total = 0\<rparr>)"

text \<open>
  Two downloaders: one whose fetchers all succeed, and one after which a fetcher has
  stored the error of a 404 answer in \<^verbatim>\<open>sum.err\<close>.
\<close>

definition downloaderOk :: "summon \<Rightarrow> error option \<times> summon" where
  "downloaderOk s = (None, s)"

definition downloader404 :: "summon \<Rightarrow> error option \<times> summon" where
  "downloader404 s = (None, s\<lparr>err := Some (UnexpectedStatus 404)\<rparr>)"

text \<open>
  The job after the reads \<open>k, ..., k + n - 1\<close> of a chunk's body, whatever errors the
  reads returned; \<open>None\<close> when one of them panicked. These are the states the read loop
  passes through.
\<close>

fun reads :: "body \<Rightarrow> int \<Rightarrow> nat \<Rightarrow> nat \<Rightarrow> osFile \<times> summon \<Rightarrow> (osFile \<times> summon) option" where
  "reads bd idx k 0 fs = Some fs"
| "reads bd idx k (Suc n) fs =
     (case readBody (bd k) idx fs of
        Inl pn \<Rightarrow> None
      | Inr r \<Rightarrow> reads bd idx (Suc k) n (snd r))"


text \<open>
  For the fetch examples: an empty part file, the same file on a full device, a job
  whose first chunk plans 3 bytes, bodies that hand over 3 bytes, or 5, or nothing, and
  then end, a stop channel that never has a value and one that has one at the second
  iteration, and a downloader after which a fetcher has stored the shutdown error.
\<close>

definition g0 :: osFile where
  "g0 = \<lparr>fname = ''/d/.out.sump0'', fbytes = [], fcursor = 0, ffault = None\<rparr>"

definition brokenFile :: osFile where
  "brokenFile = g0\<lparr>ffault := Some (OSError ''no space left on device'')\<rparr>"

definition job1 :: summon where
  "job1 = job0\<lparr>progressBar := \<lparr>p = [(0, Some \<lparr>curr = 0, total = 3\<rparr>),
                                      (1, Some \<lparr>curr = 0, total = 1\<rparr>)]\<rparr>\<rparr>"

definition bodyOnce :: body where
  "bodyOnce k = (if k = 0 then ([7, 8, 9], None) else ([], Some EOF))"

definition bodyLong :: body where
  "bodyLong k = (if k = 0 then ([7, 8, 9, 10, 11], None) else ([], Some EOF))"

definition never :: "nat \<Rightarrow> bool" where
  "never k = False"

definition atSecond :: "nat \<Rightarrow> bool" where
  "atSecond k = (k = 1)"

definition bodyEmpty :: body where
  "bodyEmpty k = ([], Some EOF)"

definition downloaderStopped :: "summon \<Rightarrow> error option \<times> summon" where
  "downloaderStopped s = (None, s\<lparr>err := Some ErrGracefulShutdown\<rparr>)"

text \<open>
  What a run of ticks prints: for each progress map its frame and then one cursor
  movement per line. \<open>jobNoCounter\<close> is the example job with the counter of its second
  chunk under key 2, so that key 1 has none.
\<close>

definition tickFrames :: "int \<Rightarrow> int \<Rightarrow> (int, progress) gomap list \<Rightarrow> event list" where
  "tickFrames indefinite progressSize ms =
     concat (map (\<lambda>m. frame indefinite progressSize m @ replicate (len m) CursorUp) ms)"

definition jobNoCounter :: summon where
  "jobNoCounter = job0\<lparr>progressBar := \<lparr>p = [(0, Some \<lparr>curr = 2, total = 2\<rparr>), (2, Some \<lparr>curr = 1, total = 1\<rparr>)]\<rparr>\<rparr>"

text \<open>
  A body whose first read hands over 2 bytes together with a network error, and the
  number of filled cells of a printed line.
\<close>

definition bodyReset :: body where
  "bodyReset k = (if k = 0 then ([7, 8], Some (OSError ''connection reset by peer''))
                  else ([], Some EOF))"

definition filled :: "line \<Rightarrow> nat" where
  "filled l = length (filter (\<lambda>c. c = CHR ''>'') (cells l))"

section \<open>Lemmas\<close>

lemma index_assign: "index (assign m k v) k' = (if k' = k then v else index m k')"
  by (induction m) (auto simp: index_def)

lemma io_Copy_ok:
  assumes "io_Copy dst (Seek0 h) = ((n, None), out, h')"
    and "fcursor dst = length (fbytes dst)"
  shows "fbytes out = fbytes dst @ fbytes h \<and> fcursor out = length (fbytes out)
         \<and> ffault out = ffault dst \<and> fname out = fname dst
         \<and> fbytes h' = fbytes h \<and> ffault h' = ffault h \<and> ffault h = None"
  using assms
  by (auto simp: io_Copy_def Seek0_def Write_def Let_def split: option.splits if_splits)

lemma io_Copy_healthy:
  assumes "ffault h = None" "ffault dst = None"
  shows "\<exists>n out h'. io_Copy dst (Seek0 h) = ((n, None), out, h')"
  using assms
  by (auto simp: io_Copy_def Seek0_def Write_def Let_def split: option.splits if_splits)

lemma combineLoop_ok:
  assumes "combineLoop is s = (None, s')"
    and "distinct is"
    and "fcursor (tempOutFile (fileDetails s)) = length (fbytes (tempOutFile (fileDetails s)))"
  shows "trace s' = trace s @ copyEvents is
       \<and> fbytes (tempOutFile (fileDetails s')) =
           fbytes (tempOutFile (fileDetails s)) @ concat (map (chunkBytes s) is)
       \<and> fname (tempOutFile (fileDetails s')) = fname (tempOutFile (fileDetails s))
       \<and> (\<forall>i \<in> set is. index (chunks (fileDetails s)) (int i) \<noteq> None)
       \<and> disk s' = disk s \<and> err s' = err s \<and> separator s' = separator s
       \<and> fileName (fileDetails s') = fileName (fileDetails s)
       \<and> fileDir (fileDetails s') = fileDir (fileDetails s)"
  using assms
proof (induction "is" arbitrary: s)
  case Nil
  then show ?case by (simp add: copyEvents_def)
next
  case (Cons i "is")
  from Cons.prems(1) obtain h where h: "index (chunks (fileDetails s)) (int i) = Some h"
    by (auto split: option.splits)
  obtain n e out h' where c: "io_Copy (tempOutFile (fileDetails s)) (Seek0 h) = ((n, e), out, h')"
    by (cases "io_Copy (tempOutFile (fileDetails s)) (Seek0 h)") auto
  define s1 where "s1 = s\<lparr>fileDetails := (fileDetails s)
                              \<lparr>chunks := assign (chunks (fileDetails s)) (int i) (Some h'),
                               tempOutFile := out\<rparr>,
                            trace := trace s @ [SeekChunk i, CopyChunk i]\<rparr>"
  from Cons.prems(1) h c have e: "e = None" and rec: "combineLoop is s1 = (None, s')"
    by (auto simp: s1_def Let_def split: option.splits)
  note ok = io_Copy_ok[OF c[unfolded e] Cons.prems(3)]
  have cur: "fcursor (tempOutFile (fileDetails s1)) = length (fbytes (tempOutFile (fileDetails s1)))"
    using ok by (simp add: s1_def)
  have d: "distinct is" "i \<notin> set is" using Cons.prems(2) by auto
  have same: "\<And>j. j \<in> set is \<Longrightarrow> chunkBytes s1 j = chunkBytes s j"
    using d(2) by (auto simp: chunkBytes_def s1_def index_assign)
  have same': "\<And>j. j \<in> set is \<Longrightarrow> index (chunks (fileDetails s1)) (int j) = index (chunks (fileDetails s)) (int j)"
    using d(2) by (auto simp: s1_def index_assign)
  have cb: "chunkBytes s i = fbytes h" by (simp add: chunkBytes_def h)
  have m: "map (chunkBytes s1) is = map (chunkBytes s) is" using same by simp
  note IH = Cons.IH[OF rec d(1) cur, unfolded m]
  have "\<forall>j \<in> set is. index (chunks (fileDetails s)) (int j) \<noteq> None"
    using IH same' by auto
  then show ?case
    using IH ok h by (simp add: cb copyEvents_def s1_def)
qed

lemma combineLoop_prefix:
  "\<exists>k \<le> length is. trace (snd (combineLoop is s)) = trace s @ copyEvents (take k is)"
proof (induction "is" arbitrary: s)
  case Nil
  then show ?case by (simp add: copyEvents_def)
next
  case (Cons i "is")
  show ?case
  proof (cases "index (chunks (fileDetails s)) (int i)")
    case None
    then show ?thesis by (auto simp: copyEvents_def intro: exI[of _ 0])
  next
    case (Some h)
    obtain n e out h' where c: "io_Copy (tempOutFile (fileDetails s)) (Seek0 h) = ((n, e), out, h')"
      by (cases "io_Copy (tempOutFile (fileDetails s)) (Seek0 h)") auto
    define s1 where "s1 = s\<lparr>fileDetails := (fileDetails s)
                              \<lparr>chunks := assign (chunks (fileDetails s)) (int i) (Some h'),
                               tempOutFile := out\<rparr>,
                            trace := trace s @ [SeekChunk i, CopyChunk i]\<rparr>"
    show ?thesis
    proof (cases e)
      case None
      from Cons.IH[of s1] obtain k where k: "k \<le> length is"
        "trace (snd (combineLoop is s1)) = trace s1 @ copyEvents (take k is)" by blast
      have "combineLoop (i # is) s = combineLoop is s1"
        using Some c None by (simp add: s1_def Let_def)
      then show ?thesis using k
        by (intro exI[of _ "Suc k"]) (simp add: s1_def copyEvents_def)
    next
      case (Some e')
      have "combineLoop (i # is) s = (Some (CopyFailed e'), s1)"
        using \<open>index (chunks (fileDetails s)) (int i) = Some h\<close> c Some by (simp add: s1_def Let_def)
      then show ?thesis
        by (intro exI[of _ "Suc 0"]) (simp add: s1_def copyEvents_def)
    qed
  qed
qed

lemma combineLoop_missing:
  assumes "\<exists>i \<in> set is. index (chunks (fileDetails s)) (int i) = None"
  shows "fst (combineLoop is s) \<noteq> None"
  using assms
proof (induction "is" arbitrary: s)
  case Nil
  then show ?case by simp
next
  case (Cons i "is")
  show ?case
  proof (cases "index (chunks (fileDetails s)) (int i)")
    case None
    then show ?thesis by simp
  next
    case (Some h)
    obtain n e out h' where c: "io_Copy (tempOutFile (fileDetails s)) (Seek0 h) = ((n, e), out, h')"
      by (cases "io_Copy (tempOutFile (fileDetails s)) (Seek0 h)") auto
    define s1 where "s1 = s\<lparr>fileDetails := (fileDetails s)
                              \<lparr>chunks := assign (chunks (fileDetails s)) (int i) (Some h'),
                               tempOutFile := out\<rparr>,
                            trace := trace s @ [SeekChunk i, CopyChunk i]\<rparr>"
    from Cons.prems obtain j where j0: "j \<in> set (i # is)" "index (chunks (fileDetails s)) (int j) = None"
      by blast
    with Some have j: "j \<in> set is" "index (chunks (fileDetails s)) (int j) = None" "j \<noteq> i"
      by auto
    then have "\<exists>i \<in> set is. index (chunks (fileDetails s1)) (int i) = None"
      by (auto simp: s1_def index_assign intro!: bexI[of _ j])
    from Cons.IH[OF this] show ?thesis
      using Some c by (cases e) (auto simp: s1_def Let_def)
  qed
qed

lemma combineLoop_healthy:
  assumes "\<forall>i \<in> set is. \<exists>h. index (chunks (fileDetails s)) (int i) = Some h \<and> ffault h = None"
    and "ffault (tempOutFile (fileDetails s)) = None"
  shows "fst (combineLoop is s) = None"
  using assms
proof (induction "is" arbitrary: s)
  case Nil
  then show ?case by simp
next
  case (Cons i "is")
  from Cons.prems(1) obtain h where h: "index (chunks (fileDetails s)) (int i) = Some h" "ffault h = None"
    by auto
  from io_Copy_healthy[OF h(2) Cons.prems(2)] obtain n out h'
    where c: "io_Copy (tempOutFile (fileDetails s)) (Seek0 h) = ((n, None), out, h')" by blast
  define s1 where "s1 = s\<lparr>fileDetails := (fileDetails s)
                              \<lparr>chunks := assign (chunks (fileDetails s)) (int i) (Some h'),
                               tempOutFile := out\<rparr>,
                            trace := trace s @ [SeekChunk i, CopyChunk i]\<rparr>"
  have f: "ffault out = None" "ffault h' = None"
    using c h(2) Cons.prems(2)
    by (auto simp: io_Copy_def Seek0_def Write_def Let_def split: option.splits if_splits)
  have "\<forall>j \<in> set is. \<exists>h. index (chunks (fileDetails s1)) (int j) = Some h \<and> ffault h = None"
    using Cons.prems(1) f by (auto simp: s1_def index_assign)
  moreover have "ffault (tempOutFile (fileDetails s1)) = None" using f by (simp add: s1_def)
  ultimately have "fst (combineLoop is s1) = None" by (rule Cons.IH)
  then show ?case using h c by (simp add: s1_def Let_def)
qed


lemma printLines_present:
  "\<forall>i \<in> set is. index m (int i) \<noteq> None \<Longrightarrow>
   printLines indef ps m is out =
     (None, out @ map (\<lambda>i. Printed (printProgress indef ps (int i) (entry m i))) is)"
  by (induction "is" arbitrary: out) (auto simp: entry_def)

lemma printLines_missing:
  "\<exists>i \<in> set is. index m (int i) = None \<Longrightarrow>
   fst (printLines indef ps m is out) = Some NilPointerDereference"
  by (induction "is" arbitrary: out) (auto split: option.splits)

lemma printLines_fileCall:
  "filter fileCall (snd (printLines indef ps m is out)) = filter fileCall out"
  by (induction "is" arbitrary: out) (auto split: option.splits)

lemma printLines_dense:
  "dense m \<Longrightarrow> printLines indef ps m [0..<len m] out = (None, out @ frame indef ps m)"
  unfolding frame_def entry_def[symmetric]
  by (rule printLines_present) (auto simp: dense_def list_all_iff)

lemma printLines_not_dense:
  "\<not> dense m \<Longrightarrow> fst (printLines indef ps m [0..<len m] out) = Some NilPointerDereference"
  by (rule printLines_missing) (auto simp: dense_def list_all_iff)

lemma startProgressBar_fileCall:
  "filter fileCall (snd (startProgressBar indef ps sel out)) = filter fileCall out"
proof (induction indef ps sel out rule: startProgressBar.induct)
  case (1 indef ps out)
  then show ?case by simp
next
  case (2 indef ps m sel out)
  show ?case
  proof (cases "printLines indef ps m [0..<len m] out")
    case (Pair a out')
    have f: "filter fileCall out' = filter fileCall out"
      using printLines_fileCall[of indef ps m "[0..<len m]" out] Pair by simp
    show ?thesis
    proof (cases a)
      case None
      with Pair 2 f show ?thesis by auto
    next
      case (Some pn)
      with Pair f show ?thesis by simp
    qed
  qed
next
  case (3 indef ps m sel out)
  show ?case
  proof (cases "printLines indef ps m [0..<len m] (out @ [StopSignal])")
    case (Pair a out')
    have f: "filter fileCall out' = filter fileCall out"
      using printLines_fileCall[of indef ps m "[0..<len m]" "out @ [StopSignal]"] Pair by simp
    with Pair show ?thesis by (cases a) auto
  qed
qed

lemma startProgressBar_ticks:
  "list_all dense ticks \<Longrightarrow>
   startProgressBar indef ps (map TickerC ticks) out =
     (Waiting, out @ concat (map (\<lambda>m. frame indef ps m @ replicate (len m) CursorUp) ticks))"
  by (induction ticks arbitrary: out) (auto simp: printLines_dense)

lemma startProgressBar_append_ticks:
  "list_all dense ticks \<Longrightarrow>
   startProgressBar indef ps (map TickerC ticks @ sel) out =
     startProgressBar indef ps sel
       (out @ concat (map (\<lambda>m. frame indef ps m @ replicate (len m) CursorUp) ticks))"
  by (induction ticks arbitrary: out) (auto simp: printLines_dense)

lemma startProgressBar_stop:
  "dense m \<Longrightarrow>
   startProgressBar indef ps (StopCh m # sel) out = (Returned, out @ [StopSignal] @ frame indef ps m)"
  by (simp add: printLines_dense)

lemma startProgressBar_stop_panics:
  "\<not> dense m \<Longrightarrow> \<exists>out'. startProgressBar indef ps (StopCh m # sel) out = (Panicked NilPointerDereference, out')"
  using printLines_not_dense[of m indef ps "out @ [StopSignal]"]
  by (cases "printLines indef ps m [0..<len m] (out @ [StopSignal])") auto

lemma combineChunks_success:
  assumes "combineChunks rf s = (None, s')"
  shows "\<exists>tr. trace s' = tr @ [Rename (fname (tempOutFile (fileDetails s'))) (finalFileName s')]
       \<and> disk s' (finalFileName s') = Some (fbytes (tempOutFile (fileDetails s')))"
  using assms
  by (auto simp: combineChunks_def Let_def finalFileName_def split: prod.splits option.splits)

lemma getDataLoop_stop:
  "stop k \<Longrightarrow> getDataLoop bd stop idx k fs = Some (Inr (Some ErrGracefulShutdown, fs))"
  by (subst getDataLoop.simps) simp

lemma getDataLoop_continue:
  "\<not> stop k \<Longrightarrow> readBody (bd k) idx fs = Inr (None, fs') \<Longrightarrow>
   getDataLoop bd stop idx k fs = getDataLoop bd stop idx (Suc k) fs'"
  by (subst getDataLoop.simps) simp

lemma getDataLoop_error:
  "\<not> stop k \<Longrightarrow> readBody (bd k) idx fs = Inr (Some e, fs') \<Longrightarrow>
   getDataLoop bd stop idx k fs = Some (Inr (if e = EOF then None else Some e, fs'))"
  by (subst getDataLoop.simps) simp

lemma getDataLoop_panic:
  "\<not> stop k \<Longrightarrow> readBody (bd k) idx fs = Inl pn \<Longrightarrow>
   getDataLoop bd stop idx k fs = Some (Inl pn)"
  by (subst getDataLoop.simps) simp

lemma readBody_error: "readBody rd idx fs = Inr (e, fs') \<Longrightarrow> e = snd rd"
  by (cases rd; cases fs) (auto simp: readBody_def Let_def split: if_splits option.splits)

lemma getDataLoop_reads:
  assumes "\<forall>j < n. \<not> stop (k + j) \<and> snd (bd (k + j)) = None"
      and "reads bd idx k n fs = Some fs'"
  shows "getDataLoop bd stop idx k fs = getDataLoop bd stop idx (k + n) fs'"
  using assms
proof (induction n arbitrary: k fs)
  case 0
  then show ?case by simp
next
  case (Suc n)
  from Suc.prems(2) obtain e fs1 where r: "readBody (bd k) idx fs = Inr (e, fs1)"
    and rest: "reads bd idx (Suc k) n fs1 = Some fs'"
    by (auto split: sum.splits)
  from Suc.prems(1) have k: "\<not> stop k" "snd (bd k) = None" by (auto dest: spec[of _ 0])
  with readBody_error[OF r] have e: "e = None" by simp
  have "\<forall>j < n. \<not> stop (Suc k + j) \<and> snd (bd (Suc k + j)) = None"
    using Suc.prems(1) by (auto dest: spec[of _ "Suc j" for j])
  from Suc.IH[OF this rest]
    getDataLoop_continue[of stop k bd idx fs fs1, OF k(1) r[unfolded e]]
  show ?case by simp
qed

lemma getDataLoop_is_reads_aux:
  assumes "getDataLoop bd stop idx k fs = Some y"
  shows "\<forall>e fs'. y = Inr (e, fs') \<longrightarrow> (\<exists>n. reads bd idx k n fs = Some fs')"
proof (rule getDataLoop.raw_induct[where P = "\<lambda>bd stop idx k fs y.
          \<forall>e fs'. y = Inr (e, fs') \<longrightarrow> (\<exists>n. reads bd idx k n fs = Some fs')", OF _ assms])
  fix loop :: "body \<Rightarrow> (nat \<Rightarrow> bool) \<Rightarrow> int \<Rightarrow> nat \<Rightarrow> osFile \<times> summon
     \<Rightarrow> (panic + (error option \<times> osFile \<times> summon)) option"
  fix bd stop idx k fs y
  assume IH: "\<And>bd stop idx k fs y. loop bd stop idx k fs = Some y \<Longrightarrow>
      \<forall>e fs'. y = Inr (e, fs') \<longrightarrow> (\<exists>n. reads bd idx k n fs = Some fs')"
  assume eq: "(if stop k then Some (Inr (Some ErrGracefulShutdown, fs))
      else case readBody (bd k) idx fs of Inl pn \<Rightarrow> Some (Inl pn)
           | Inr r \<Rightarrow>
               case fst r of None \<Rightarrow> loop bd stop idx (Suc k) (snd r)
               | Some e \<Rightarrow>
                   if e = EOF then Some (Inr (None, snd r))
                   else Some (Inr (Some e, snd r))) = Some y"
  show "\<forall>e fs'. y = Inr (e, fs') \<longrightarrow> (\<exists>n. reads bd idx k n fs = Some fs')"
  proof (cases "stop k")
    case True
    with eq have "y = Inr (Some ErrGracefulShutdown, fs)" by simp
    moreover have "reads bd idx k 0 fs = Some fs" by simp
    ultimately show ?thesis by blast
  next
    case False
    show ?thesis
    proof (cases "readBody (bd k) idx fs")
      case (Inl pn)
      with False eq show ?thesis by auto
    next
      case (Inr r)
      show ?thesis
      proof (cases "fst r")
        case None
        with False Inr eq have "loop bd stop idx (Suc k) (snd r) = Some y" by simp
        from IH[OF this] have "\<forall>e fs'. y = Inr (e, fs') \<longrightarrow>
            (\<exists>n. reads bd idx (Suc k) n (snd r) = Some fs')" .
        moreover have "\<And>n. reads bd idx k (Suc n) fs = reads bd idx (Suc k) n (snd r)"
          using Inr by simp
        ultimately show ?thesis by metis
      next
        case (Some e)
        with False Inr eq have "\<exists>e'. y = Inr (e', snd r)" by (auto split: if_splits)
        moreover have "reads bd idx k (Suc 0) fs = Some (snd r)" using Inr by simp
        ultimately show ?thesis by blast
      qed
    qed
  qed
qed

lemma getDataLoop_is_reads:
  "getDataLoop bd stop idx k fs = Some (Inr (e, fs')) \<Longrightarrow> \<exists>n. reads bd idx k n fs = Some fs'"
  using getDataLoop_is_reads_aux by blast

lemma sint_add_nat:
  fixes w :: "64 word"
  assumes "0 \<le> sint w" "sint w + int d < 2 ^ 63"
  shows "sint (w + word_of_nat d) = sint w + int d"
proof -
  have d: "int d < 2 ^ 63" using assms by linarith
  have "sint (word_of_nat d :: 64 word) = int d"
    using d by (simp add: signed_of_nat signed_take_bit_int_eq_self)
  then show ?thesis
    using assms by (simp add: sint_word_add signed_take_bit_int_eq_self)
qed

lemma delivered_Suc:
  "delivered bd k (Suc n) = length (take 500 (fst (bd k))) + delivered bd (Suc k) n"
proof -
  have "{k..<k + Suc n} = insert k {Suc k..<Suc k + n}" by auto
  then show ?thesis by (simp add: delivered_def)
qed

lemma readBody_counter:
  assumes "readBody rd idx (f, s) = Inr (e, f', s')"
      and "index (p (progressBar s)) idx = Some pr"
  shows "index (p (progressBar s')) idx =
           Some (pr\<lparr>curr := curr pr + word_of_nat (length (take 500 (fst rd)))\<rparr>)
       \<and> (\<forall>j. j \<noteq> idx \<longrightarrow> index (p (progressBar s')) j = index (p (progressBar s)) j)
       \<and> err s' = err s \<and> fileDetails s' = fileDetails s \<and> trace s' = trace s \<and> disk s' = disk s"
  using assms
  by (cases rd) (auto simp: readBody_def Let_def index_assign split: if_splits option.splits)

lemma readBody_panic_iff:
  "(\<exists>pn. readBody rd idx (f, s) = Inl pn) \<longleftrightarrow>
     (fst rd \<noteq> [] \<and> index (p (progressBar s)) idx = None)"
  by (cases rd) (auto simp: readBody_def Let_def split: if_splits option.splits)

lemma reads_counter:
  assumes "reads bd idx k n (f, s) = Some (f', s')"
      and "index (p (progressBar s)) idx = Some pr"
  shows "index (p (progressBar s')) idx = Some (pr\<lparr>curr := curr pr + word_of_nat (delivered bd k n)\<rparr>)
       \<and> (\<forall>j. j \<noteq> idx \<longrightarrow> index (p (progressBar s')) j = index (p (progressBar s)) j)
       \<and> err s' = err s"
  using assms
proof (induction n arbitrary: k f s pr)
  case 0
  then show ?case by (simp add: delivered_def)
next
  case (Suc n)
  from Suc.prems(1) obtain e f1 s1 where r: "readBody (bd k) idx (f, s) = Inr (e, f1, s1)"
    and rest: "reads bd idx (Suc k) n (f1, s1) = Some (f', s')"
    by (auto split: sum.splits)
  note st = readBody_counter[OF r Suc.prems(2)]
  from st have i1: "index (p (progressBar s1)) idx =
      Some (pr\<lparr>curr := curr pr + word_of_nat (length (take 500 (fst (bd k))))\<rparr>)" by simp
  note IH = Suc.IH[OF rest i1]
  show ?case using IH st by (simp add: delivered_Suc add.assoc)
qed


lemma process_returns_recorded:
  assumes "downloader s0 = (None, s)" "err s = Some e"
      and "process indef ps downloader ticks late rf s0 = Inr x"
  shows "fst x = Some e"
proof -
  obtain g1 t1 where a: "startProgressBar indef ps (map TickerC ticks) (trace s) = (g1, t1)"
    by (cases "startProgressBar indef ps (map TickerC ticks) (trace s)") auto
  obtain g2 t2 where b: "startProgressBar indef ps
        (replicate late (TickerC (p (progressBar s))) @ [StopCh (p (progressBar s))])
        (t1 @ [FetchersJoined]) = (g2, t2)"
    by (cases "startProgressBar indef ps
        (replicate late (TickerC (p (progressBar s))) @ [StopCh (p (progressBar s))])
        (t1 @ [FetchersJoined])") auto
  show ?thesis
    using assms a b by (cases g1; cases g2) (auto simp: process_def Let_def)
qed

lemma copyEvents_fileCall: "list_all fileCall (copyEvents is)"
  by (induction "is") (auto simp: copyEvents_def)

lemma combineChunks_trace:
  "\<exists>rest. trace (snd (combineChunks rf s)) = trace s @ rest \<and> list_all fileCall rest"
proof -
  obtain e s1 where l: "combineLoop [0..<len (chunks (fileDetails s))] s = (e, s1)"
    by (cases "combineLoop [0..<len (chunks (fileDetails s))] s") auto
  from combineLoop_prefix[of "[0..<len (chunks (fileDetails s))]" s] l
  obtain k where k: "trace s1 = trace s @ copyEvents (take k [0..<len (chunks (fileDetails s))])"
    by auto
  show ?thesis
  proof (cases e)
    case None
    show ?thesis
    proof (cases rf)
      case None
      with \<open>e = None\<close> l k show ?thesis
        by (auto simp: combineChunks_def Let_def copyEvents_fileCall
              intro!: exI[of _ "copyEvents (take k [0..<len (chunks (fileDetails s))]) @ [Rename (fname (tempOutFile (fileDetails s1))) (finalFileName s1)]"])
    next
      case (Some e')
      with \<open>e = None\<close> l k show ?thesis
        by (auto simp: combineChunks_def Let_def copyEvents_fileCall
              intro!: exI[of _ "copyEvents (take k [0..<len (chunks (fileDetails s))]) @ [Rename (fname (tempOutFile (fileDetails s1))) (finalFileName s1)]"])
    qed
  next
    case (Some e')
    with l k show ?thesis
      by (auto simp: combineChunks_def copyEvents_fileCall
            intro!: exI[of _ "copyEvents (take k [0..<len (chunks (fileDetails s))])"])
  qed
qed

lemma frame_nth:
  "i < len m \<Longrightarrow> frame indef ps m ! i = Printed (printProgress indef ps (int i) (entry m i))"
  by (simp add: frame_def entry_def)

lemma process_trace:
  assumes "downloader s0 = (None, s)" "list_all dense ticks" "dense (p (progressBar s))"
  shows "\<exists>x rest. process indef ps downloader ticks late rf s0 = Inr x
           \<and> trace (snd x) = trace s @ tickFrames indef ps ticks @ [FetchersJoined]
                @ tickFrames indef ps (replicate late (p (progressBar s))) @ [StopSignal]
                @ frame indef ps (p (progressBar s)) @ [RendererJoined] @ rest
           \<and> list_all fileCall rest"
proof -
  let ?m = "p (progressBar s)"
  let ?t1 = "trace s @ tickFrames indef ps ticks"
  let ?t2 = "?t1 @ [FetchersJoined] @ tickFrames indef ps (replicate late ?m) @ [StopSignal]
              @ frame indef ps ?m"
  have a: "startProgressBar indef ps (map TickerC ticks) (trace s) = (Waiting, ?t1)"
    using assms(2) by (simp add: startProgressBar_ticks tickFrames_def)
  have rep: "replicate late (TickerC ?m) = map TickerC (replicate late ?m)" by simp
  have dl: "list_all dense (replicate late ?m)" using assms(3) by (simp add: list_all_iff)
  have b: "startProgressBar indef ps (replicate late (TickerC ?m) @ [StopCh ?m]) (?t1 @ [FetchersJoined])
             = (Returned, ?t2)"
    unfolding rep
    by (simp only: startProgressBar_append_ticks[OF dl] startProgressBar_stop[OF assms(3)])
       (simp add: tickFrames_def)
  define s' where "s' = s\<lparr>trace := ?t2 @ [RendererJoined]\<rparr>"
  show ?thesis
  proof (cases "err s")
    case None
    from combineChunks_trace[of rf s'] obtain rest where
      r: "trace (snd (combineChunks rf s')) = trace s' @ rest" "list_all fileCall rest" by blast
    have "process indef ps downloader ticks late rf s0 = Inr (combineChunks rf s')"
      using assms(1) a b None by (simp add: process_def Let_def s'_def)
    with r show ?thesis by (auto simp: s'_def)
  next
    case (Some e)
    have "process indef ps downloader ticks late rf s0 = Inr (Some e, s')"
      using assms(1) a b Some by (simp add: process_def Let_def s'_def)
    then show ?thesis by (auto simp: s'_def intro!: exI[of _ "[]"])
  qed
qed

lemma percent_total_zero:
  "total pr = 0 \<Longrightarrow> percent (printProgress indef ps i pr) =
     (if curr pr = 0 then NaN else if 0 < sint (curr pr) then PosInf else NegInf)"
proof -
  assume t: "total pr = 0"
  have z: "(rat_of_int (sint (curr pr)) = 0) = (curr pr = 0)"
    by (simp add: signed_eq_0_iff del: of_int_sint)
  have p: "(0 < rat_of_int (sint (curr pr))) = (0 < sint (curr pr))"
    by (simp del: of_int_sint)
  show ?thesis
    using t z p by (simp add: printProgress_def float64_of_int64_def Let_def del: of_int_sint)
qed

lemma readBody_err: "readBody rd idx (f, s) = Inr (e, f', s') \<Longrightarrow> err s' = err s"
  by (cases rd) (auto simp: readBody_def Let_def split: if_splits option.splits)

lemma reads_err: "reads bd idx k n (f, s) = Some (f', s') \<Longrightarrow> err s' = err s"
proof (induction n arbitrary: k f s)
  case 0
  then show ?case by simp
next
  case (Suc n)
  from Suc.prems obtain e f1 s1 where r: "readBody (bd k) idx (f, s) = Inr (e, f1, s1)"
    and rest: "reads bd idx (Suc k) n (f1, s1) = Some (f', s')"
    by (auto split: sum.splits)
  from Suc.IH[OF rest] readBody_err[OF r] show ?case by simp
qed

lemma count_cells:
  "length (filter (\<lambda>i. int i \<le> n) [0..<m]) = (if n < 0 then 0 else min m (nat n + 1))"
  by (induction m) auto

section \<open>Claims\<close>

text \<open>
  C1. \<^verbatim>\<open>combineChunks\<close> over a job whose chunk map has \<open>N\<close> keys, with the temporary
  output file positioned at its end. Whatever the outcome, the calls made are a seek
  and a copy for the indices \<open>0, 1, ..., k - 1\<close> in this order, each seek right before
  its copy, and the rename comes only after all \<open>N\<close>. When it succeeds, the temporary
  output holds what it held followed by the contents of the chunk files \<open>0 .. N - 1\<close> in
  index order. When some index below \<open>N\<close> has no handle it fails, and when every handle
  is there and every file works it succeeds.
\<close>

theorem combineChunks_ascending_concat:
  assumes "fcursor (tempOutFile (fileDetails s)) = length (fbytes (tempOutFile (fileDetails s)))"
      and "N = len (chunks (fileDetails s))"
      and "r = combineChunks renameFault s"
  shows "(fst r = None \<longrightarrow>
            trace (snd r) = trace s @ copyEvents [0..<N]
                             @ [Rename (fname (tempOutFile (fileDetails s))) (finalFileName s)]
          \<and> fbytes (tempOutFile (fileDetails (snd r))) =
              fbytes (tempOutFile (fileDetails s)) @ concat (map (chunkBytes s) [0..<N]))
       \<and> ((\<exists>i < N. index (chunks (fileDetails s)) (int i) = None) \<longrightarrow> fst r \<noteq> None)
       \<and> (healthy s \<and> renameFault = None \<longrightarrow> fst r = None)
       \<and> (\<exists>k \<le> N. \<exists>tl. trace (snd r) = trace s @ copyEvents [0..<k] @ tl
              \<and> (tl = [] \<or> k = N \<and> tl = [Rename (fname (tempOutFile (fileDetails (snd r)))) (finalFileName s)]))"
proof -
  obtain e s1 where l: "combineLoop [0..<N] s = (e, s1)" by (cases "combineLoop [0..<N] s") auto
  have A: "fst r = None \<longrightarrow>
            trace (snd r) = trace s @ copyEvents [0..<N]
                             @ [Rename (fname (tempOutFile (fileDetails s))) (finalFileName s)]
          \<and> fbytes (tempOutFile (fileDetails (snd r))) =
              fbytes (tempOutFile (fileDetails s)) @ concat (map (chunkBytes s) [0..<N])"
  proof
    assume ok: "fst r = None"
    then have e: "e = None"
      using l assms(2,3) by (auto simp: combineChunks_def Let_def split: option.splits)
    have d: "distinct [0..<N]" by simp
    note L = combineLoop_ok[OF l[unfolded e] d assms(1)]
    from ok have rf: "renameFault = None"
      using l e assms(2,3) by (auto simp: combineChunks_def Let_def split: option.splits)
    show "trace (snd r) = trace s @ copyEvents [0..<N]
                             @ [Rename (fname (tempOutFile (fileDetails s))) (finalFileName s)]
          \<and> fbytes (tempOutFile (fileDetails (snd r))) =
              fbytes (tempOutFile (fileDetails s)) @ concat (map (chunkBytes s) [0..<N])"
      using L l e rf assms(2,3) by (simp add: combineChunks_def Let_def finalFileName_def)
  qed
  have B: "(\<exists>i < N. index (chunks (fileDetails s)) (int i) = None) \<longrightarrow> fst r \<noteq> None"
  proof
    assume "\<exists>i < N. index (chunks (fileDetails s)) (int i) = None"
    then have "\<exists>i \<in> set [0..<N]. index (chunks (fileDetails s)) (int i) = None" by auto
    from combineLoop_missing[OF this] show "fst r \<noteq> None"
      using l assms(2,3) by (auto simp: combineChunks_def Let_def split: option.splits)
  qed
  have C: "healthy s \<and> renameFault = None \<longrightarrow> fst r = None"
  proof
    assume h: "healthy s \<and> renameFault = None"
    then have "\<forall>i \<in> set [0..<N]. \<exists>h. index (chunks (fileDetails s)) (int i) = Some h \<and> ffault h = None"
      using assms(2) by (auto simp: healthy_def list_all_iff split: option.splits)
    moreover have "ffault (tempOutFile (fileDetails s)) = None" using h by (simp add: healthy_def)
    ultimately have "fst (combineLoop [0..<N] s) = None" by (rule combineLoop_healthy)
    then show "fst r = None"
      using h l assms(2,3) by (auto simp: combineChunks_def Let_def split: option.splits)
  qed
  have D: "\<exists>k \<le> N. \<exists>tl. trace (snd r) = trace s @ copyEvents [0..<k] @ tl
              \<and> (tl = [] \<or> k = N \<and> tl = [Rename (fname (tempOutFile (fileDetails (snd r)))) (finalFileName s)])"
  proof (cases e)
    case None
    have d: "distinct [0..<N]" by simp
    note L = combineLoop_ok[OF l[unfolded None] d assms(1)]
    show ?thesis
      using L l None assms(2,3)
      by (intro exI[of _ N]) (auto simp: combineChunks_def Let_def finalFileName_def split: option.splits)
  next
    case (Some e')
    from combineLoop_prefix[of "[0..<N]" s] obtain k where
      k: "k \<le> N" "trace s1 = trace s @ copyEvents (take k [0..<N])" using l by auto
    have "take k [0..<N] = [0..<k]" using k(1) by (simp add: take_upt)
    then show ?thesis
      using k l Some assms(2,3)
      by (intro exI[of _ k]) (auto simp: combineChunks_def Let_def)
  qed
  from A B C D show ?thesis by blast
qed

theorem combineChunks_ascending_concat_witness:
  "fcursor (tempOutFile (fileDetails job0)) = length (fbytes (tempOutFile (fileDetails job0)))
   \<and> healthy job0
   \<and> fst (combineChunks None job0) = None
   \<and> fbytes (tempOutFile (fileDetails (snd (combineChunks None job0)))) = [1, 2, 3]
   \<and> trace (snd (combineChunks None job0)) =
       [SeekChunk 0, CopyChunk 0, SeekChunk 1, CopyChunk 1, Rename ''/d/tmp'' ''/d/out'']
   \<and> index (chunks (fileDetails jobGap)) 1 = None
   \<and> fst (combineChunks None jobGap) \<noteq> None"
proof -
  have c: "fcursor (tempOutFile (fileDetails job0)) = length (fbytes (tempOutFile (fileDetails job0)))"
    by (simp add: job0_def)
  have h: "healthy job0" by code_simp
  have n: "len (chunks (fileDetails job0)) = 2" by code_simp
  note T = combineChunks_ascending_concat[OF c n[symmetric] refl, of None]
  from T h have ok: "fst (combineChunks None job0) = None" by blast
  with T have
    "trace (snd (combineChunks None job0)) = trace job0 @ copyEvents [0..<2]
       @ [Rename (fname (tempOutFile (fileDetails job0))) (finalFileName job0)]"
    "fbytes (tempOutFile (fileDetails (snd (combineChunks None job0)))) =
       fbytes (tempOutFile (fileDetails job0)) @ concat (map (chunkBytes job0) [0..<2])"
    by blast+
  moreover have "trace job0 @ copyEvents [0..<2]
       @ [Rename (fname (tempOutFile (fileDetails job0))) (finalFileName job0)] =
       [SeekChunk 0, CopyChunk 0, SeekChunk 1, CopyChunk 1, Rename ''/d/tmp'' ''/d/out'']"
    by code_simp
  moreover have "fbytes (tempOutFile (fileDetails job0)) @ concat (map (chunkBytes job0) [0..<2]) = [1, 2, 3]"
    by code_simp
  ultimately have r: "trace (snd (combineChunks None job0)) =
       [SeekChunk 0, CopyChunk 0, SeekChunk 1, CopyChunk 1, Rename ''/d/tmp'' ''/d/out'']"
    "fbytes (tempOutFile (fileDetails (snd (combineChunks None job0)))) = [1, 2, 3]"
    by simp_all
  have cg: "fcursor (tempOutFile (fileDetails jobGap)) = length (fbytes (tempOutFile (fileDetails jobGap)))"
    by (simp add: jobGap_def job0_def)
  have ng: "len (chunks (fileDetails jobGap)) = 2" by code_simp
  have g: "index (chunks (fileDetails jobGap)) 1 = None" by code_simp
  then have "\<exists>i<2. index (chunks (fileDetails jobGap)) (int i) = None"
    by (intro exI[of _ 1]) simp
  with combineChunks_ascending_concat[OF cg ng[symmetric] refl, of None]
  have gf: "fst (combineChunks None jobGap) \<noteq> None" by blast
  from c h ok r g gf show ?thesis by blast
qed

text \<open>
  C2. \<^verbatim>\<open>process\<close>, for a downloader that returned \<open>d\<close> and left the job \<open>s\<close>. When the
  downloader itself failed, its error is returned at once. When it launched the
  fetchers and \<^verbatim>\<open>sum.err\<close> holds an error once they have joined, every return of
  \<^verbatim>\<open>process\<close> gives that error back, nothing of the job but the trace has changed
  (so neither the temporary output nor the directory, where the final file may or may
  not exist), and no seek, copy or rename was made; with all counters present
  \<^verbatim>\<open>process\<close> does return. And whenever \<^verbatim>\<open>process\<close> returns no error, no error was
  recorded, the rename is the last call made and the final path holds the bytes of the
  temporary output.
\<close>

theorem process_recorded_error_skips_combine:
  assumes "downloader s0 = (d, s)"
      and "r = process indef ps downloader ticks late rf s0"
  shows "(d \<noteq> None \<longrightarrow> r = Inr (d, s))
       \<and> (d = None \<and> err s \<noteq> None \<longrightarrow>
            (\<forall>x. r = Inr x \<longrightarrow>
               fst x = err s \<and> snd x = s\<lparr>trace := trace (snd x)\<rparr>
               \<and> filter fileCall (trace (snd x)) = filter fileCall (trace s)))
       \<and> (d = None \<and> err s \<noteq> None \<and> list_all dense ticks \<and> dense (p (progressBar s)) \<longrightarrow>
            (\<exists>s'. r = Inr (err s, s')))
       \<and> (\<forall>s'. r = Inr (None, s') \<longrightarrow>
            err s = None
            \<and> (\<exists>tr. trace s' = tr @ [Rename (fname (tempOutFile (fileDetails s'))) (finalFileName s')])
            \<and> disk s' (finalFileName s') = Some (fbytes (tempOutFile (fileDetails s'))))"
proof -
  obtain g1 t1 where a: "startProgressBar indef ps (map TickerC ticks) (trace s) = (g1, t1)"
    by (cases "startProgressBar indef ps (map TickerC ticks) (trace s)") auto
  obtain g2 t2 where b: "startProgressBar indef ps
        (replicate late (TickerC (p (progressBar s))) @ [StopCh (p (progressBar s))])
        (t1 @ [FetchersJoined]) = (g2, t2)"
    by (cases "startProgressBar indef ps
        (replicate late (TickerC (p (progressBar s))) @ [StopCh (p (progressBar s))])
        (t1 @ [FetchersJoined])") auto
  have f1: "filter fileCall t1 = filter fileCall (trace s)"
    using startProgressBar_fileCall[of indef ps "map TickerC ticks" "trace s"] a by simp
  have "filter fileCall (snd (g2, t2)) = filter fileCall (t1 @ [FetchersJoined])"
    unfolding b[symmetric] by (rule startProgressBar_fileCall)
  then have f2: "filter fileCall t2 = filter fileCall (trace s)"
    using f1 by simp
  have A: "d \<noteq> None \<longrightarrow> r = Inr (d, s)"
    using assms by (auto simp: process_def)
  have B: "d = None \<and> err s \<noteq> None \<longrightarrow>
            (\<forall>x. r = Inr x \<longrightarrow>
               fst x = err s \<and> snd x = s\<lparr>trace := trace (snd x)\<rparr>
               \<and> filter fileCall (trace (snd x)) = filter fileCall (trace s))"
    using assms a b f2
    by (cases g1; cases g2) (auto simp: process_def Let_def)
  have C: "d = None \<and> err s \<noteq> None \<and> list_all dense ticks \<and> dense (p (progressBar s)) \<longrightarrow>
            (\<exists>s'. r = Inr (err s, s'))"
  proof
    assume h: "d = None \<and> err s \<noteq> None \<and> list_all dense ticks \<and> dense (p (progressBar s))"
    then have g1: "g1 = Waiting" using a by (simp add: startProgressBar_ticks)
    have "replicate late (TickerC (p (progressBar s))) = map TickerC (replicate late (p (progressBar s)))"
      by simp
    moreover have "list_all dense (replicate late (p (progressBar s)))"
      using h by (simp add: list_all_iff)
    ultimately have g2: "g2 = Returned"
      using b h by (simp only: startProgressBar_append_ticks startProgressBar_stop) simp
    show "\<exists>s'. r = Inr (err s, s')"
      using assms a b g1 g2 h by (auto simp: process_def Let_def)
  qed
  have D: "\<forall>s'. r = Inr (None, s') \<longrightarrow>
            err s = None
            \<and> (\<exists>tr. trace s' = tr @ [Rename (fname (tempOutFile (fileDetails s'))) (finalFileName s')])
            \<and> disk s' (finalFileName s') = Some (fbytes (tempOutFile (fileDetails s')))"
  proof (intro allI impI)
    fix s' assume ok: "r = Inr (None, s')"
    then have dn: "d = None" using A by auto
    from ok assms a b dn have e: "err s = None"
      by (cases g1; cases g2) (auto simp: process_def Let_def split: option.splits)
    from ok assms a b dn e have "combineChunks rf (s\<lparr>trace := t2 @ [RendererJoined]\<rparr>) = (None, s')"
      by (cases g1; cases g2) (auto simp: process_def Let_def split: option.splits)
    from combineChunks_success[OF this] e
    show "err s = None
            \<and> (\<exists>tr. trace s' = tr @ [Rename (fname (tempOutFile (fileDetails s'))) (finalFileName s')])
            \<and> disk s' (finalFileName s') = Some (fbytes (tempOutFile (fileDetails s')))"
      by simp
  qed
  from A B C D show ?thesis by blast
qed


theorem process_recorded_error_skips_combine_witness:
  "downloader404 job0 = (None, job0\<lparr>err := Some (UnexpectedStatus 404)\<rparr>)
   \<and> err (job0\<lparr>err := Some (UnexpectedStatus 404)\<rparr>) \<noteq> None
   \<and> dense (p (progressBar (job0\<lparr>err := Some (UnexpectedStatus 404)\<rparr>)))
   \<and> (case process 0 10 downloader404 [] 0 None job0 of
         Inl pn \<Rightarrow> False
       | Inr x \<Rightarrow> fst x = Some (UnexpectedStatus 404)
                 \<and> filter fileCall (trace (snd x)) = []
                 \<and> disk (snd x) ''/d/out'' = None
                 \<and> fbytes (tempOutFile (fileDetails (snd x))) = [])
   \<and> (case process 0 10 downloaderOk [] 0 None job0 of
         Inl pn \<Rightarrow> False
       | Inr x \<Rightarrow> fst x = None
                 \<and> last (trace (snd x)) = Rename ''/d/tmp'' ''/d/out''
                 \<and> disk (snd x) ''/d/out'' = Some [1, 2, 3])"
proof -
  define jobE where "jobE = job0\<lparr>err := Some (UnexpectedStatus 404)\<rparr>"
  have d: "downloader404 job0 = (None, jobE)" by (simp add: downloader404_def jobE_def)
  have e: "err jobE \<noteq> None" by (simp add: jobE_def)
  have dn: "dense (p (progressBar jobE))" unfolding jobE_def by code_simp
  note T = process_recorded_error_skips_combine[of downloader404 job0 None jobE _ 0 10 "[]" 0 None, OF d refl]
  from T e dn obtain s' where r: "process 0 10 downloader404 [] 0 None job0 = Inr (err jobE, s')"
    by auto
  with T e have s': "s' = jobE\<lparr>trace := trace s'\<rparr>"
    "filter fileCall (trace s') = filter fileCall (trace jobE)" by auto
  have "disk s' = disk jobE" "fileDetails s' = fileDetails jobE"
    by (subst s'(1), simp)+
  then have u: "disk s' ''/d/out'' = None" "fbytes (tempOutFile (fileDetails s')) = []"
    "filter fileCall (trace s') = []" "err jobE = Some (UnexpectedStatus 404)"
    using s'(2) by (simp_all add: jobE_def job0_def)
  have A: "case process 0 10 downloader404 [] 0 None job0 of
         Inl pn \<Rightarrow> False
       | Inr x \<Rightarrow> fst x = Some (UnexpectedStatus 404)
                 \<and> filter fileCall (trace (snd x)) = []
                 \<and> disk (snd x) ''/d/out'' = None
                 \<and> fbytes (tempOutFile (fileDetails (snd x))) = []"
    using r u by simp
  have d2: "downloaderOk job0 = (None, job0)" by (simp add: downloaderOk_def)
  have ok: "case process 0 10 downloaderOk [] 0 None job0 of Inl pn \<Rightarrow> False
            | Inr x \<Rightarrow> fst x = None \<and> fname (tempOutFile (fileDetails (snd x))) = ''/d/tmp''
                \<and> finalFileName (snd x) = ''/d/out''
                \<and> fbytes (tempOutFile (fileDetails (snd x))) = [1, 2, 3]"
    by code_simp
  then obtain s2 where r2: "process 0 10 downloaderOk [] 0 None job0 = Inr (None, s2)"
    and v: "fname (tempOutFile (fileDetails s2)) = ''/d/tmp''" "finalFileName s2 = ''/d/out''"
      "fbytes (tempOutFile (fileDetails s2)) = [1, 2, 3]"
    by (cases "process 0 10 downloaderOk [] 0 None job0") (auto split: prod.splits)
  from process_recorded_error_skips_combine[of downloaderOk job0 None job0 _ 0 10 "[]" 0 None, OF d2 refl] r2
  have "(\<exists>tr. trace s2 = tr @ [Rename (fname (tempOutFile (fileDetails s2))) (finalFileName s2)])
        \<and> disk s2 (finalFileName s2) = Some (fbytes (tempOutFile (fileDetails s2)))"
    by auto
  with v have "last (trace s2) = Rename ''/d/tmp'' ''/d/out''" "disk s2 ''/d/out'' = Some [1, 2, 3]"
    by auto
  with r2 have B: "case process 0 10 downloaderOk [] 0 None job0 of
         Inl pn \<Rightarrow> False
       | Inr x \<Rightarrow> fst x = None
                 \<and> last (trace (snd x)) = Rename ''/d/tmp'' ''/d/out''
                 \<and> disk (snd x) ''/d/out'' = Some [1, 2, 3]"
    by simp
  from d e dn A B show ?thesis unfolding jobE_def by blast
qed

text \<open>
  C3. The read loop looks at the stop channel before every read: when the reads
  \<open>k, ..., k + n - 1\<close> went through without a stop and without an error and the channel
  has a value at iteration \<open>k + n\<close>, the loop returns \<^verbatim>\<open>ErrGracefulShutdown\<close> with the
  job exactly as those \<open>n\<close> reads left it: no further read is made. \<^verbatim>\<open>downloadFileForRange\<close>
  stores that error in \<^verbatim>\<open>sum.err\<close>, \<^verbatim>\<open>process\<close> returns it, and the report of a failed job
  (modelled from the spec) is suppressed for it and for no other error.
\<close>

theorem graceful_shutdown_before_each_read:
  "((\<forall>j < n. \<not> stop (k + j) \<and> snd (bd (k + j)) = None)
      \<and> reads bd idx k n fs = Some fs' \<and> stop (k + n)
     \<longrightarrow> getDataLoop bd stop idx k fs = Some (Inr (Some ErrGracefulShutdown, fs')))
   \<and> ((statusCode = 200 \<or> statusCode = 206)
        \<and> getDataAndWriteToFile bd stop handle idx s
            = Some (Inr (Some ErrGracefulShutdown, handle', s'))
     \<longrightarrow> downloadFileForRange (Response statusCode bd) stop idx handle s
           = Some (Inr (handle', s'\<lparr>err := Some ErrGracefulShutdown\<rparr>)))
   \<and> (downloader s0 = (None, sj) \<and> err sj = Some ErrGracefulShutdown
        \<and> process indef ps downloader ticks late rf s0 = Inr x
     \<longrightarrow> fst x = Some ErrGracefulShutdown \<and> \<not> jobFailedReport (fst x))
   \<and> (e \<noteq> ErrGracefulShutdown \<longrightarrow> jobFailedReport (Some e))"
proof -
  have A: "(\<forall>j < n. \<not> stop (k + j) \<and> snd (bd (k + j)) = None)
      \<and> reads bd idx k n fs = Some fs' \<and> stop (k + n)
     \<longrightarrow> getDataLoop bd stop idx k fs = Some (Inr (Some ErrGracefulShutdown, fs'))"
    using getDataLoop_reads[of n stop k bd idx fs fs'] getDataLoop_stop[of stop "k + n" bd idx fs']
    by auto
  have B: "(statusCode = 200 \<or> statusCode = 206)
        \<and> getDataAndWriteToFile bd stop handle idx s
            = Some (Inr (Some ErrGracefulShutdown, handle', s'))
     \<longrightarrow> downloadFileForRange (Response statusCode bd) stop idx handle s
           = Some (Inr (handle', s'\<lparr>err := Some ErrGracefulShutdown\<rparr>))"
    by (auto simp: downloadFileForRange_def)
  have C: "downloader s0 = (None, sj) \<and> err sj = Some ErrGracefulShutdown
        \<and> process indef ps downloader ticks late rf s0 = Inr x
     \<longrightarrow> fst x = Some ErrGracefulShutdown \<and> \<not> jobFailedReport (fst x)"
    using process_returns_recorded[of downloader s0 sj ErrGracefulShutdown indef ps ticks late rf x]
    by (auto simp: jobFailedReport_def)
  have D: "e \<noteq> ErrGracefulShutdown \<longrightarrow> jobFailedReport (Some e)"
    by (simp add: jobFailedReport_def)
  from A B C D show ?thesis by blast
qed

theorem graceful_shutdown_before_each_read_witness:
  "\<not> atSecond 0 \<and> snd (bodyOnce 0) = None \<and> atSecond 1
   \<and> (case getDataAndWriteToFile bodyOnce atSecond g0 0 job1 of
         Some (Inr (e, f, s)) \<Rightarrow>
           e = Some ErrGracefulShutdown \<and> fbytes f = [7, 8, 9]
           \<and> index (p (progressBar s)) 0 = Some \<lparr>curr = 3, total = 3\<rparr>
       | _ \<Rightarrow> False)
   \<and> (case downloadFileForRange (Response 206 bodyOnce) atSecond 0 g0 job1 of
         Some (Inr (f, s)) \<Rightarrow> err s = Some ErrGracefulShutdown
       | _ \<Rightarrow> False)
   \<and> (case process 0 10 downloaderStopped [] 0 None job1 of
         Inr x \<Rightarrow> fst x = Some ErrGracefulShutdown \<and> \<not> jobFailedReport (fst x)
       | Inl pn \<Rightarrow> False)
   \<and> jobFailedReport (Some (UnexpectedStatus 404))"
proof -
  have h: "\<not> atSecond 0" "snd (bodyOnce 0) = None" "atSecond 1"
    by (simp_all add: atSecond_def bodyOnce_def)
  have "reads bodyOnce 0 0 1 (g0, job1) \<noteq> None" by code_simp
  then obtain f1 s1 where r: "reads bodyOnce 0 0 1 (g0, job1) = Some (f1, s1)" by auto
  have v: "case reads bodyOnce 0 0 1 (g0, job1) of
             Some (f, s) \<Rightarrow> fbytes f = [7, 8, 9]
               \<and> index (p (progressBar s)) 0 = Some \<lparr>curr = 3, total = 3\<rparr>
           | None \<Rightarrow> False"
    by code_simp
  note T = graceful_shutdown_before_each_read[of 1 atSecond 0 bodyOnce 0 "(g0, job1)" "(f1, s1)"
      206 g0 job1 f1 s1 downloaderStopped job1 "job1\<lparr>err := Some ErrGracefulShutdown\<rparr>"
      0 10 "[]" 0 None _ "UnexpectedStatus 404"]
  have h': "\<forall>j < 1. \<not> atSecond (0 + j) \<and> snd (bodyOnce (0 + j)) = None" "atSecond (0 + 1)"
    using h by simp_all
  from T[THEN conjunct1] h' r have l: "getDataLoop bodyOnce atSecond 0 0 (g0, job1)
      = Some (Inr (Some ErrGracefulShutdown, f1, s1))" by blast
  then have g: "getDataAndWriteToFile bodyOnce atSecond g0 0 job1
      = Some (Inr (Some ErrGracefulShutdown, f1, s1))"
    by (simp add: getDataAndWriteToFile_def)
  with T[THEN conjunct2, THEN conjunct1]
  have d: "downloadFileForRange (Response 206 bodyOnce) atSecond 0 g0 job1
      = Some (Inr (f1, s1\<lparr>err := Some ErrGracefulShutdown\<rparr>))" by blast
  have A: "case getDataAndWriteToFile bodyOnce atSecond g0 0 job1 of
         Some (Inr (e, f, s)) \<Rightarrow>
           e = Some ErrGracefulShutdown \<and> fbytes f = [7, 8, 9]
           \<and> index (p (progressBar s)) 0 = Some \<lparr>curr = 3, total = 3\<rparr>
       | _ \<Rightarrow> False"
    using g v r by simp
  have B: "case downloadFileForRange (Response 206 bodyOnce) atSecond 0 g0 job1 of
         Some (Inr (f, s)) \<Rightarrow> err s = Some ErrGracefulShutdown
       | _ \<Rightarrow> False"
    using d by simp
  have "case process 0 10 downloaderStopped [] 0 None job1 of Inr x \<Rightarrow> True | Inl pn \<Rightarrow> False"
    by code_simp
  then obtain x where px: "process 0 10 downloaderStopped [] 0 None job1 = Inr x"
    by (cases "process 0 10 downloaderStopped [] 0 None job1") auto
  have ds: "downloaderStopped job1 = (None, job1\<lparr>err := Some ErrGracefulShutdown\<rparr>)"
    by (simp add: downloaderStopped_def)
  note T2 = graceful_shutdown_before_each_read[of 1 atSecond 0 bodyOnce 0 "(g0, job1)" "(f1, s1)"
      206 g0 job1 f1 s1 downloaderStopped job1 "job1\<lparr>err := Some ErrGracefulShutdown\<rparr>"
      0 10 "[]" 0 None x "UnexpectedStatus 404"]
  have es: "err (job1\<lparr>err := Some ErrGracefulShutdown\<rparr>) = Some ErrGracefulShutdown" by simp
  from T2[THEN conjunct2, THEN conjunct2, THEN conjunct1] ds px es
  have C: "fst x = Some ErrGracefulShutdown \<and> \<not> jobFailedReport (fst x)" by blast
  have "UnexpectedStatus 404 \<noteq> ErrGracefulShutdown" by simp
  with T2[THEN conjunct2, THEN conjunct2, THEN conjunct2]
  have D: "jobFailedReport (Some (UnexpectedStatus 404))" by blast
  from C px have C': "case process 0 10 downloaderStopped [] 0 None job1 of
         Inr x \<Rightarrow> fst x = Some ErrGracefulShutdown \<and> \<not> jobFailedReport (fst x)
       | Inl pn \<Rightarrow> False" by auto
  from h A B C' D show ?thesis by blast
qed

text \<open>
  C5, as amended. Every state the read loop returns is a state after some number of
  reads. After the reads \<open>k, ..., k + n - 1\<close> the counter of the chunk is its old value
  plus the number of bytes those reads handed over (at most 500 each), in 64-bit
  arithmetic; its total and the counters of the other chunks are as before. So the
  counter never decreases, and it stays between 0 and the total as long as it started
  at 0 or above and the body has handed over no more than what was left to the total.
  The code itself does not bound the counter by the total.
\<close>

theorem progress_counter_follows_reads:
  "(getDataLoop bd stop idx k (f, s) = Some (Inr (e, f', s'))
      \<longrightarrow> (\<exists>n. reads bd idx k n (f, s) = Some (f', s')))
   \<and> (reads bd idx k n (f, s) = Some (fn, sn) \<and> index (p (progressBar s)) idx = Some pr
      \<longrightarrow> index (p (progressBar sn)) idx
            = Some (pr\<lparr>curr := curr pr + word_of_nat (delivered bd k n)\<rparr>)
        \<and> (\<forall>j. j \<noteq> idx \<longrightarrow> index (p (progressBar sn)) j = index (p (progressBar s)) j)
        \<and> (0 \<le> sint (curr pr) \<and> sint (curr pr) + int (delivered bd k n) \<le> sint (total pr)
            \<longrightarrow> sint (curr pr + word_of_nat (delivered bd k n))
                  = sint (curr pr) + int (delivered bd k n)))"
proof -
  have A: "getDataLoop bd stop idx k (f, s) = Some (Inr (e, f', s'))
      \<longrightarrow> (\<exists>n. reads bd idx k n (f, s) = Some (f', s'))"
    using getDataLoop_is_reads[of bd stop idx k "(f, s)" e "(f', s')"] by blast
  have "sint (total pr) < 2 ^ 63"
    using sint_lt[of "total pr"] by simp
  then have B: "0 \<le> sint (curr pr) \<and> sint (curr pr) + int (delivered bd k n) \<le> sint (total pr)
            \<longrightarrow> sint (curr pr + word_of_nat (delivered bd k n))
                  = sint (curr pr) + int (delivered bd k n)"
    using sint_add_nat[of "curr pr" "delivered bd k n"] by auto
  show ?thesis
    using A B reads_counter[of bd idx k n f s fn sn pr] by blast
qed

theorem progress_counter_follows_reads_witness:
  "index (p (progressBar job1)) 0 = Some \<lparr>curr = 0, total = 3\<rparr>
   \<and> delivered bodyOnce 0 2 = 3
   \<and> (0 :: int) \<le> sint (0 :: 64 word) \<and> sint (0 :: 64 word) + int 3 \<le> sint (3 :: 64 word)
   \<and> (case getDataLoop bodyOnce never 0 0 (g0, job1) of
         Some (Inr r) \<Rightarrow> True | _ \<Rightarrow> False)
   \<and> (case reads bodyOnce 0 0 2 (g0, job1) of
         Some (f, s) \<Rightarrow>
           index (p (progressBar s)) 0 = Some \<lparr>curr = 3, total = 3\<rparr>
           \<and> index (p (progressBar s)) 1 = index (p (progressBar job1)) 1
       | None \<Rightarrow> False)
   \<and> sint (0 + word_of_nat 3 :: 64 word) = 3"
proof -
  have i: "index (p (progressBar job1)) 0 = Some \<lparr>curr = 0, total = 3\<rparr>" by code_simp
  have dl: "delivered bodyOnce 0 2 = 3" by code_simp
  have b: "(0 :: int) \<le> sint (0 :: 64 word)" "sint (0 :: 64 word) + int 3 \<le> sint (3 :: 64 word)"
    by simp_all
  have l: "case getDataLoop bodyOnce never 0 0 (g0, job1) of Some (Inr r) \<Rightarrow> True | _ \<Rightarrow> False"
    by code_simp
  have "case reads bodyOnce 0 0 2 (g0, job1) of Some r \<Rightarrow> True | _ \<Rightarrow> False" by code_simp
  then obtain f2 s2 where r2: "reads bodyOnce 0 0 2 (g0, job1) = Some (f2, s2)"
    by (auto split: option.splits)
  note T = progress_counter_follows_reads[of bodyOnce never 0 0 g0 job1 None g0 job1 2 f2 s2
      "\<lparr>curr = 0, total = 3\<rparr>", THEN conjunct2]
  from T r2 i have c0: "index (p (progressBar s2)) 0
        = Some (\<lparr>curr = 0, total = 3\<rparr>\<lparr>curr := curr \<lparr>curr = 0, total = 3\<rparr> + word_of_nat (delivered bodyOnce 0 2)\<rparr>)"
    and c1: "\<forall>j. j \<noteq> 0 \<longrightarrow> index (p (progressBar s2)) j = index (p (progressBar job1)) j"
    and c2: "0 \<le> sint (curr \<lparr>curr = 0, total = 3 :: 64 word\<rparr>)
           \<and> sint (curr \<lparr>curr = 0, total = 3 :: 64 word\<rparr>) + int (delivered bodyOnce 0 2) \<le> sint (total \<lparr>curr = 0 :: 64 word, total = 3\<rparr>)
            \<longrightarrow> sint (curr \<lparr>curr = 0, total = 3 :: 64 word\<rparr> + word_of_nat (delivered bodyOnce 0 2))
                  = sint (curr \<lparr>curr = 0, total = 3 :: 64 word\<rparr>) + int (delivered bodyOnce 0 2)"
    by blast+
  from c0 dl have c0': "index (p (progressBar s2)) 0 = Some \<lparr>curr = 3, total = 3\<rparr>" by simp
  from c1 have c1': "index (p (progressBar s2)) 1 = index (p (progressBar job1)) 1" by simp
  from c2 dl have c2': "sint (0 + word_of_nat 3 :: 64 word) = 3" by simp
  have R: "case reads bodyOnce 0 0 2 (g0, job1) of
         Some (f, s) \<Rightarrow>
           index (p (progressBar s)) 0 = Some \<lparr>curr = 3, total = 3\<rparr>
           \<and> index (p (progressBar s)) 1 = index (p (progressBar job1)) 1
       | None \<Rightarrow> False"
    using r2 c0' c1' by simp
  from i dl b l R c2' show ?thesis by blast
qed

text \<open>
  C5 as stated fails: a body that hands over 5 bytes for a chunk planned at 3 bytes
  leaves the counter at 5, above the total.
\<close>

theorem counter_exceeds_total:
  "case getDataAndWriteToFile bodyLong never g0 0 job1 of
     Some (Inr (e, f, s)) \<Rightarrow>
       e = None \<and> index (p (progressBar s)) 0 = Some \<lparr>curr = 5, total = 3\<rparr>
       \<and> sint (3 :: 64 word) < sint (5 :: 64 word)
   | _ \<Rightarrow> False"
  by code_simp

text \<open>
  C6 at the input where the code departs from it: the part file is on a full device,
  so the write of the 3 bytes read fails, and the fetch still ends without an error,
  with the 3 bytes counted and none of them in the file.
\<close>

theorem write_error_is_dropped:
  "fst (Write brokenFile [7, 8, 9]) = (0, Some (OSError ''no space left on device''))
   \<and> (case getDataAndWriteToFile bodyOnce never brokenFile 0 job1 of
     Some (Inr (e, f, s)) \<Rightarrow> e = None \<and> fbytes f = [] \<and> err s = None
        \<and> index (p (progressBar s)) 0 = Some \<lparr>curr = 3, total = 3\<rparr>
   | _ \<Rightarrow> False)"
  by code_simp

text \<open>
  C7. A response whose status is neither 200 nor 206 ends the fetch at once: the
  error carrying the status is stored in \<^verbatim>\<open>sum.err\<close>, and neither the file nor the
  counters are touched. With status 200 or 206 the fetch goes on to read the body; a
  body that ends at once leaves \<^verbatim>\<open>sum.err\<close> as it was.
\<close>

theorem downloadFileForRange_status:
  "(statusCode \<noteq> 200 \<and> statusCode \<noteq> 206 \<longrightarrow>
      downloadFileForRange (Response statusCode bd) stop idx handle s
        = Some (Inr (handle, s\<lparr>err := Some (UnexpectedStatus statusCode)\<rparr>)))
   \<and> (statusCode = 200 \<or> statusCode = 206 \<longrightarrow>
        downloadFileForRange (Response statusCode bd) stop idx handle s
          = (case getDataAndWriteToFile bd stop handle idx s of
               None \<Rightarrow> None
             | Some (Inl pn) \<Rightarrow> Some (Inl pn)
             | Some (Inr (Some e, handle', s')) \<Rightarrow> Some (Inr (handle', s'\<lparr>err := Some e\<rparr>))
             | Some (Inr (None, handle', s')) \<Rightarrow> Some (Inr (handle', s'))))
   \<and> ((statusCode = 200 \<or> statusCode = 206) \<and> \<not> stop 0 \<and> bd 0 = ([], Some EOF) \<longrightarrow>
        downloadFileForRange (Response statusCode bd) stop idx handle s = Some (Inr (handle, s)))"
proof -
  have "\<not> stop 0 \<and> bd 0 = ([], Some EOF) \<longrightarrow>
      getDataAndWriteToFile bd stop handle idx s = Some (Inr (None, handle, s))"
    unfolding getDataAndWriteToFile_def
    by (subst getDataLoop.simps) (simp add: readBody_def)
  then show ?thesis
    by (auto simp: downloadFileForRange_def)
qed

theorem downloadFileForRange_status_witness:
  "(404 :: int) \<noteq> 200 \<and> (404 :: int) \<noteq> 206
   \<and> downloadFileForRange (Response 404 bodyOnce) never 2 g0 job1
       = Some (Inr (g0, job1\<lparr>err := Some (UnexpectedStatus 404)\<rparr>))
   \<and> \<not> never 0 \<and> bodyEmpty 0 = ([], Some EOF)
   \<and> downloadFileForRange (Response 206 bodyEmpty) never 2 g0 job1 = Some (Inr (g0, job1))
   \<and> downloadFileForRange (Response 200 bodyEmpty) never 2 g0 job1 = Some (Inr (g0, job1))"
proof -
  have n: "(404 :: int) \<noteq> 200 \<and> (404 :: int) \<noteq> 206" by simp
  have e: "\<not> never 0" "bodyEmpty 0 = ([], Some EOF)" by (simp_all add: never_def bodyEmpty_def)
  from downloadFileForRange_status[of 404 bodyOnce never 2 g0 job1, THEN conjunct1] n
  have a: "downloadFileForRange (Response 404 bodyOnce) never 2 g0 job1
       = Some (Inr (g0, job1\<lparr>err := Some (UnexpectedStatus 404)\<rparr>))" by blast
  from downloadFileForRange_status[of 206 bodyEmpty never 2 g0 job1, THEN conjunct2, THEN conjunct2] e
  have b: "downloadFileForRange (Response 206 bodyEmpty) never 2 g0 job1 = Some (Inr (g0, job1))"
    by blast
  from downloadFileForRange_status[of 200 bodyEmpty never 2 g0 job1, THEN conjunct2, THEN conjunct2] e
  have c: "downloadFileForRange (Response 200 bodyEmpty) never 2 g0 job1 = Some (Inr (g0, job1))"
    by blast
  from n a e b c show ?thesis by blast
qed

text \<open>
  C9, as amended. \<^verbatim>\<open>setConcurrency\<close> never fails: a request of 0 or less is replaced by
  \<^verbatim>\<open>DEFAULT_CONN\<close>, a request of \<^verbatim>\<open>MAX_CONN\<close> or more by \<^verbatim>\<open>MAX_CONN\<close>, and any other
  request is kept.
\<close>

theorem setConcurrency_never_fails:
  "setConcurrency DEFAULT_CONN MAX_CONN c s =
     s\<lparr>concurrency := (if c \<le> 0 then DEFAULT_CONN else if MAX_CONN \<le> c then MAX_CONN else c)\<rparr>"
  by (simp add: setConcurrency_def)

text \<open>
  C9 as stated fails: with a default of 4 and a maximum of 20, the requests 0 and -3
  give a job with concurrency 4 and no error.
\<close>

theorem setConcurrency_substitutes_default:
  "concurrency (setConcurrency 4 20 0 job0) = 4 \<and> concurrency (setConcurrency 4 20 (- 3) job0) = 4"
  by (simp add: setConcurrency_def)

text \<open>
  C4 at the inputs where the code departs from it, with a bar of 10 cells. At 0 of 10
  bytes the percentage is 0 and the cell count computed from it is 0, yet one cell is
  filled; at 95 of 100 bytes the count is 9, yet all 10 cells are filled. The loop
  fills cell \<open>i\<close> when \<open>i \<le> n\<close>, one cell more than \<open>n\<close>. The label is the index plus one.
\<close>

theorem bar_fills_one_cell_more:
  "printProgress indef 10 0 \<lparr>curr = 0, total = 10\<rparr>
     = \<lparr>connection = 1, cells = ''>         '', percent = Finite 0\<rparr>
   \<and> printProgress indef 10 0 \<lparr>curr = 95, total = 100\<rparr>
     = \<lparr>connection = 1, cells = ''>>>>>>>>>>'', percent = Finite 95\<rparr>"
  by code_simp

text \<open>
  C8. On the stop signal the renderer prints the frame of the progress map once, one
  line per index in ascending order, and returns, whatever cases might follow. In
  \<^verbatim>\<open>process\<close>, with all counters present, the trace reads: the frames of the ticks
  taken while the fetchers ran, the return of \<^verbatim>\<open>wg.Wait()\<close>, the frames of the ticks
  taken after it, the stop signal, the frame of the job as the fetchers left it, the
  return of \<^verbatim>\<open>pWg.Wait()\<close>, and only then the file calls of combining, if any.
\<close>

theorem stop_after_join_final_frame_once:
  "(dense m \<longrightarrow>
      startProgressBar indef ps (StopCh m # sel) out = (Returned, out @ [StopSignal] @ frame indef ps m))
   \<and> length (frame indef ps m) = len m
   \<and> (i < len m \<longrightarrow>
        frame indef ps m ! i = Printed (printProgress indef ps (int i) (entry m i)))
   \<and> (downloader s0 = (None, s) \<and> list_all dense ticks \<and> dense (p (progressBar s)) \<longrightarrow>
        (\<exists>x rest. process indef ps downloader ticks late rf s0 = Inr x
           \<and> trace (snd x) = trace s @ tickFrames indef ps ticks @ [FetchersJoined]
                @ tickFrames indef ps (replicate late (p (progressBar s))) @ [StopSignal]
                @ frame indef ps (p (progressBar s)) @ [RendererJoined] @ rest
           \<and> list_all fileCall rest))"
  using startProgressBar_stop[of m indef ps sel out] frame_nth[of i m indef ps]
    process_trace[of downloader s0 s ticks indef ps late rf]
  by (simp add: frame_def)

theorem stop_after_join_final_frame_once_witness:
  "downloaderOk job0 = (None, job0) \<and> dense (p (progressBar job0))
   \<and> startProgressBar 0 2 [StopCh (p (progressBar job0)), TickerC (p (progressBar job0))] []
       = (Returned, [StopSignal,
            Printed \<lparr>connection = 1, cells = ''>>'', percent = Finite 100\<rparr>,
            Printed \<lparr>connection = 2, cells = ''>>'', percent = Finite 100\<rparr>])
   \<and> (case process 0 2 downloaderOk [] 0 None job0 of
         Inr x \<Rightarrow> take 5 (trace (snd x)) = [FetchersJoined, StopSignal,
            Printed \<lparr>connection = 1, cells = ''>>'', percent = Finite 100\<rparr>,
            Printed \<lparr>connection = 2, cells = ''>>'', percent = Finite 100\<rparr>,
            RendererJoined]
       | Inl pn \<Rightarrow> False)"
proof -
  let ?m = "p (progressBar job0)"
  have d0: "downloaderOk job0 = (None, job0)" by (simp add: downloaderOk_def)
  have d: "dense ?m" by code_simp
  have fr: "frame 0 2 ?m = [Printed \<lparr>connection = 1, cells = ''>>'', percent = Finite 100\<rparr>,
            Printed \<lparr>connection = 2, cells = ''>>'', percent = Finite 100\<rparr>]"
    by code_simp
  note T = stop_after_join_final_frame_once[of ?m 0 2 "[TickerC ?m]" "[]" 0 downloaderOk job0 job0
      "[]" 0 None]
  from T[THEN conjunct1] d fr have a: "startProgressBar 0 2 [StopCh ?m, TickerC ?m] []
       = (Returned, [StopSignal,
            Printed \<lparr>connection = 1, cells = ''>>'', percent = Finite 100\<rparr>,
            Printed \<lparr>connection = 2, cells = ''>>'', percent = Finite 100\<rparr>])"
    by simp
  have tr: "trace job0 = []" by (simp add: job0_def)
  from T[THEN conjunct2, THEN conjunct2, THEN conjunct2] d0 d
  obtain x rest where px: "process 0 2 downloaderOk [] 0 None job0 = Inr x"
    and t: "trace (snd x) = trace job0 @ tickFrames 0 2 [] @ [FetchersJoined]
                @ tickFrames 0 2 (replicate 0 ?m) @ [StopSignal]
                @ frame 0 2 ?m @ [RendererJoined] @ rest"
    by auto
  from t fr tr have "take 5 (trace (snd x)) = [FetchersJoined, StopSignal,
            Printed \<lparr>connection = 1, cells = ''>>'', percent = Finite 100\<rparr>,
            Printed \<lparr>connection = 2, cells = ''>>'', percent = Finite 100\<rparr>,
            RendererJoined]"
    by (simp add: tickFrames_def)
  with px have b: "case process 0 2 downloaderOk [] 0 None job0 of
         Inr x \<Rightarrow> take 5 (trace (snd x)) = [FetchersJoined, StopSignal,
            Printed \<lparr>connection = 1, cells = ''>>'', percent = Finite 100\<rparr>,
            Printed \<lparr>connection = 2, cells = ''>>'', percent = Finite 100\<rparr>,
            RendererJoined]
       | Inl pn \<Rightarrow> False" by simp
  from d0 d a b show ?thesis by blast
qed

text \<open>
  C10, as amended. When some index below the number of keys has no counter, the loop
  over the lines panics with a nil pointer dereference, in a tick as in the final
  frame; when every index has one, every line is printed. A counter whose total is 0
  gets a percentage that is NaN when \<open>curr\<close> is 0 too and an infinity otherwise; no
  error arises.
\<close>

theorem renderer_needs_dense_map:
  "(\<not> dense m \<longrightarrow>
       fst (printLines indef ps m [0..<len m] out) = Some NilPointerDereference
       \<and> fst (startProgressBar indef ps (TickerC m # sel) out) = Panicked NilPointerDereference
       \<and> fst (startProgressBar indef ps (StopCh m # sel) out) = Panicked NilPointerDereference)
   \<and> (dense m \<longrightarrow> printLines indef ps m [0..<len m] out = (None, out @ frame indef ps m))
   \<and> (total pr = 0 \<longrightarrow>
        percent (printProgress indef ps i pr) =
          (if curr pr = 0 then NaN else if 0 < sint (curr pr) then PosInf else NegInf))"
proof -
  have A: "\<not> dense m \<longrightarrow>
       fst (printLines indef ps m [0..<len m] out) = Some NilPointerDereference
       \<and> fst (startProgressBar indef ps (TickerC m # sel) out) = Panicked NilPointerDereference
       \<and> fst (startProgressBar indef ps (StopCh m # sel) out) = Panicked NilPointerDereference"
  proof
    assume nd: "\<not> dense m"
    note p1 = printLines_not_dense[OF nd, of indef ps out]
    note p2 = printLines_not_dense[OF nd, of indef ps "out @ [StopSignal]"]
    have t: "fst (startProgressBar indef ps (TickerC m # sel) out) = Panicked NilPointerDereference"
      using p1 by (cases "printLines indef ps m [0..<len m] out") auto
    have s: "fst (startProgressBar indef ps (StopCh m # sel) out) = Panicked NilPointerDereference"
      using p2 by (cases "printLines indef ps m [0..<len m] (out @ [StopSignal])") auto
    from p1 t s show "fst (printLines indef ps m [0..<len m] out) = Some NilPointerDereference
       \<and> fst (startProgressBar indef ps (TickerC m # sel) out) = Panicked NilPointerDereference
       \<and> fst (startProgressBar indef ps (StopCh m # sel) out) = Panicked NilPointerDereference"
      by blast
  qed
  from A printLines_dense[of m indef ps out] percent_total_zero[of pr indef ps i]
  show ?thesis by blast
qed

theorem renderer_needs_dense_map_witness:
  "\<not> dense (p (progressBar jobNoCounter))
   \<and> fst (startProgressBar 0 10 [TickerC (p (progressBar jobNoCounter))] []) = Panicked NilPointerDereference
   \<and> fst (startProgressBar 0 10 [StopCh (p (progressBar jobNoCounter))] []) = Panicked NilPointerDereference
   \<and> dense (p (progressBar job0))
   \<and> fst (printLines 0 10 (p (progressBar job0)) [0..<len (p (progressBar job0))] []) = None
   \<and> length (snd (printLines 0 10 (p (progressBar job0)) [0..<len (p (progressBar job0))] [])) = 2
   \<and> percent (printProgress 0 10 0 \<lparr>curr = 0, total = 0\<rparr>) = NaN
   \<and> percent (printProgress 0 10 0 \<lparr>curr = 5, total = 0\<rparr>) = PosInf
   \<and> percent (printProgress 0 10 0 \<lparr>curr = - 5, total = 0\<rparr>) = NegInf"
proof -
  have nd: "\<not> dense (p (progressBar jobNoCounter))" by code_simp
  have d: "dense (p (progressBar job0))" by code_simp
  note T1 = renderer_needs_dense_map[of "p (progressBar jobNoCounter)" 0 10 "[]" "[]"
      "\<lparr>curr = 0, total = 0\<rparr>" 0]
  note T2 = renderer_needs_dense_map[of "p (progressBar job0)" 0 10 "[]" "[]"
      "\<lparr>curr = 5, total = 0\<rparr>" 0]
  note T3 = renderer_needs_dense_map[of "p (progressBar job0)" 0 10 "[]" "[]"
      "\<lparr>curr = - 5, total = 0\<rparr>" 0]
  from T1[THEN conjunct1] nd have a:
    "fst (startProgressBar 0 10 [TickerC (p (progressBar jobNoCounter))] []) = Panicked NilPointerDereference"
    "fst (startProgressBar 0 10 [StopCh (p (progressBar jobNoCounter))] []) = Panicked NilPointerDereference"
    by blast+
  from T2[THEN conjunct2, THEN conjunct1] d
  have b: "printLines 0 10 (p (progressBar job0)) [0..<len (p (progressBar job0))] []
            = (None, [] @ frame 0 10 (p (progressBar job0)))" by blast
  have "length (frame 0 10 (p (progressBar job0))) = 2" by code_simp
  with b have b': "fst (printLines 0 10 (p (progressBar job0)) [0..<len (p (progressBar job0))] []) = None"
    "length (snd (printLines 0 10 (p (progressBar job0)) [0..<len (p (progressBar job0))] [])) = 2"
    by simp_all
  from T1[THEN conjunct2, THEN conjunct2]
  have c: "percent (printProgress 0 10 0 \<lparr>curr = 0, total = 0\<rparr>) = NaN" by simp
  from T2[THEN conjunct2, THEN conjunct2]
  have e: "percent (printProgress 0 10 0 \<lparr>curr = 5, total = 0\<rparr>) = PosInf" by simp
  from T3[THEN conjunct2, THEN conjunct2]
  have f: "percent (printProgress 0 10 0 \<lparr>curr = - 5, total = 0\<rparr>) = NegInf" by simp
  from nd a d b' c e f show ?thesis by blast
qed

text \<open>
  C10 as stated fails: with 5 bytes read and a total of 0 the percentage is positive
  infinity, not NaN.
\<close>

theorem percent_infinite_not_NaN:
  "percent (printProgress 0 10 0 \<lparr>curr = 5, total = 0\<rparr>) = PosInf"
  by (simp add: printProgress_def float64_of_int64_def Let_def)

section \<open>Further properties\<close>

text \<open>
  X1. In the read loop a read that returns an error ends the fetch at once: after
  \<open>n\<close> reads without stop and without error, the error of the next read is what
  \<^verbatim>\<open>getDataAndWriteToFile\<close> returns, with the bytes that came with it written and
  counted and no further read made; for \<^verbatim>\<open>io.EOF\<close> it returns nil.
\<close>

theorem read_error_ends_fetch:
  "(\<forall>j < n. \<not> stop (k + j) \<and> snd (bd (k + j)) = None)
     \<and> reads bd idx k n fs = Some fs1 \<and> \<not> stop (k + n)
     \<and> readBody (bd (k + n)) idx fs1 = Inr (Some e, fs')
   \<longrightarrow> getDataLoop bd stop idx k fs = Some (Inr (if e = EOF then None else Some e, fs'))"
  using getDataLoop_reads[of n stop k bd idx fs fs1]
    getDataLoop_error[of stop "k + n" bd idx fs1 e fs']
  by auto

theorem read_error_ends_fetch_witness:
  "\<not> never 0 \<and> reads bodyReset 0 0 0 (g0, job1) = Some (g0, job1)
   \<and> (case readBody (bodyReset 0) 0 (g0, job1) of
         Inr (e, f, s) \<Rightarrow> e = Some (OSError ''connection reset by peer'') | Inl pn \<Rightarrow> False)
   \<and> (case getDataLoop bodyReset never 0 0 (g0, job1) of
         Some (Inr (e, f, s)) \<Rightarrow>
           e = Some (OSError ''connection reset by peer'') \<and> fbytes f = [7, 8]
           \<and> index (p (progressBar s)) 0 = Some \<lparr>curr = 2, total = 3\<rparr>
       | _ \<Rightarrow> False)"
proof -
  have n: "\<not> never 0" by (simp add: never_def)
  have r0: "reads bodyReset 0 0 0 (g0, job1) = Some (g0, job1)" by simp
  have v: "case readBody (bodyReset 0) 0 (g0, job1) of
         Inr (e, f, s) \<Rightarrow> e = Some (OSError ''connection reset by peer'') \<and> fbytes f = [7, 8]
           \<and> index (p (progressBar s)) 0 = Some \<lparr>curr = 2, total = 3\<rparr> | Inl pn \<Rightarrow> False"
    by code_simp
  then obtain f s where rb: "readBody (bodyReset 0) 0 (g0, job1)
      = Inr (Some (OSError ''connection reset by peer''), f, s)"
    and fs: "fbytes f = [7, 8]" "index (p (progressBar s)) 0 = Some \<lparr>curr = 2, total = 3\<rparr>"
    by (auto split: sum.splits)
  from read_error_ends_fetch[of 0 never 0 bodyReset 0 "(g0, job1)" "(g0, job1)"
      "OSError ''connection reset by peer''" "(f, s)"] n r0 rb
  have "getDataLoop bodyReset never 0 0 (g0, job1)
      = Some (Inr (Some (OSError ''connection reset by peer''), f, s))" by simp
  with fs rb n r0 show ?thesis by simp
qed

text \<open>
  X2. A fetcher never clears \<^verbatim>\<open>sum.err\<close>: when an error is recorded before
  \<^verbatim>\<open>downloadFileForRange\<close> runs, one is recorded after it, however the fetch went.
\<close>

theorem fetch_never_clears_err:
  "downloadFileForRange resp stop idx handle s = Some (Inr (handle', s')) \<and> err s \<noteq> None
   \<longrightarrow> err s' \<noteq> None"
proof
  assume a: "downloadFileForRange resp stop idx handle s = Some (Inr (handle', s')) \<and> err s \<noteq> None"
  show "err s' \<noteq> None"
  proof (cases resp)
    case (NewRequestFails e)
    with a show ?thesis by (auto simp: downloadFileForRange_def)
  next
    case (DoFails e)
    with a show ?thesis by (auto simp: downloadFileForRange_def)
  next
    case (Response st bd)
    show ?thesis
    proof (cases "st \<noteq> 200 \<and> st \<noteq> 206")
      case True
      with a Response show ?thesis by (auto simp: downloadFileForRange_def)
    next
      case False
      with a Response obtain e f1 s1 where
        g: "getDataLoop bd stop idx 0 (handle, s) = Some (Inr (e, f1, s1))"
        and s': "s' = (case e of None \<Rightarrow> s1 | Some e' \<Rightarrow> s1\<lparr>err := Some e'\<rparr>)"
        by (auto simp: downloadFileForRange_def getDataAndWriteToFile_def
                 split: option.splits sum.splits)
      from getDataLoop_is_reads[OF g] obtain n where "reads bd idx 0 n (handle, s) = Some (f1, s1)"
        by blast
      from reads_err[OF this] a s' show ?thesis by (cases e) auto
    qed
  qed
qed

theorem fetch_never_clears_err_witness:
  "err (job1\<lparr>err := Some (UnexpectedStatus 404)\<rparr>) \<noteq> None
   \<and> (case downloadFileForRange (Response 206 bodyOnce) never 0 g0 (job1\<lparr>err := Some (UnexpectedStatus 404)\<rparr>) of
         Some (Inr (f, s)) \<Rightarrow> err s \<noteq> None \<and> fbytes f = [7, 8, 9]
       | _ \<Rightarrow> False)"
proof -
  have e: "err (job1\<lparr>err := Some (UnexpectedStatus 404)\<rparr>) \<noteq> None" by simp
  have v: "case downloadFileForRange (Response 206 bodyOnce) never 0 g0 (job1\<lparr>err := Some (UnexpectedStatus 404)\<rparr>) of
         Some (Inr (f, s)) \<Rightarrow> fbytes f = [7, 8, 9]
       | _ \<Rightarrow> False"
    by code_simp
  then obtain f s where d: "downloadFileForRange (Response 206 bodyOnce) never 0 g0
        (job1\<lparr>err := Some (UnexpectedStatus 404)\<rparr>) = Some (Inr (f, s))"
    and b: "fbytes f = [7, 8, 9]"
    by (auto split: option.splits sum.splits)
  from fetch_never_clears_err[of "Response 206 bodyOnce" never 0 g0
      "job1\<lparr>err := Some (UnexpectedStatus 404)\<rparr>" f s] d e
  have "err s \<noteq> None" by blast
  with d b e show ?thesis by simp
qed

text \<open>
  X3. The number of filled cells of a printed line, for every counter and every bar
  width: with \<open>n\<close> the cell count computed from the percentage, no cell when \<open>n\<close> is
  negative, and otherwise \<open>n + 1\<close> cells, capped at the width of the bar.
\<close>

theorem filled_cells_count:
  "filled (printProgress indefinite progressSize idx pr) =
     (let n = int_of_float64 indefinite
                (fmul (fdiv (percent (printProgress indefinite progressSize idx pr)) (Finite 100))
                      (Finite (of_int progressSize)))
      in if n < 0 then 0 else min (nat progressSize) (nat n + 1))"
  by (simp add: filled_def printProgress_def Let_def filter_map o_def count_cells)

end
